theory Spec2Isabelle
  imports Main "HOL-Library.Sublist"
begin

section \<open>Text, paths and files\<close>

text \<open>
  The two scripts (\<^verbatim>\<open>migrate_to_isaac_4.5.py\<close> and \<^verbatim>\<open>fix_ardupilot_for_isaac_4.5.py\<close>)
  read files as text, rewrite the text with \<^verbatim>\<open>re.findall\<close> / \<^verbatim>\<open>re.sub\<close> and write
  it back. A Python \<^verbatim>\<open>str\<close> is modelled as a \<^typ>\<open>string\<close> whose characters are the
  code points below 256; \<^verbatim>\<open>str.isspace\<close> and \<^verbatim>\<open>str.lower\<close> are written out for
  that range. A file's content is the text that \<^verbatim>\<open>f.read()\<close> returns.
\<close>

definition isspace :: "char \<Rightarrow> bool" where
  "isspace c = ((of_char c :: nat) \<in> set [9, 10, 11, 12, 13, 28, 29, 30, 31, 32, 133, 160])"

definition lower_char :: "char \<Rightarrow> char" where
  "lower_char c =
     (let n = (of_char c :: nat)
      in if (65 \<le> n \<and> n \<le> 90) \<or> (192 \<le> n \<and> n \<le> 222 \<and> n \<noteq> 215)
         then char_of (n + 32) else c)"

definition lower :: "string \<Rightarrow> string" where
  "lower s = map lower_char s"

text \<open>\<^verbatim>\<open>needle in hay\<close> on strings.\<close>

fun py_in :: "string \<Rightarrow> string \<Rightarrow> bool" where
  "py_in needle [] = (needle = [])"
| "py_in needle (c # cs) = (prefix needle (c # cs) \<or> py_in needle cs)"

text \<open>
  A \<^verbatim>\<open>pathlib.Path\<close> is the list of its components. \<^verbatim>\<open>root / rel\<close> for a relative
  \<^verbatim>\<open>rel\<close> appends the components; \<^verbatim>\<open>name\<close>, \<^verbatim>\<open>suffix\<close>, \<^verbatim>\<open>with_suffix\<close> and
  \<^verbatim>\<open>relative_to\<close> follow pathlib (Python 3.8 to 3.13).
\<close>

type_synonym path = "string list"

datatype exn =
    ValueError          \<comment> \<open>raised by \<^verbatim>\<open>with_suffix\<close> and \<^verbatim>\<open>relative_to\<close>\<close>
  | ReadFailure         \<comment> \<open>whatever \<^verbatim>\<open>open\<close> / \<^verbatim>\<open>read\<close> / \<^verbatim>\<open>copy2\<close> raise on a missing or unreadable file\<close>
  | WriteFailure        \<comment> \<open>whatever \<^verbatim>\<open>open(..., 'w')\<close> / \<^verbatim>\<open>copy2\<close> raise when the target cannot be written\<close>
  | ReError             \<comment> \<open>\<^verbatim>\<open>re.error\<close>: the pattern does not compile\<close>
  | Unsupported         \<comment> \<open>not a Python exception: the pattern or template is outside the modelled fragment\<close>

definition joinpath :: "path \<Rightarrow> path \<Rightarrow> path" where
  "joinpath root rel = root @ rel"

definition path_name :: "path \<Rightarrow> string" where
  "path_name p = (if p = [] then [] else last p)"

fun rfind :: "char \<Rightarrow> string \<Rightarrow> nat option" where
  "rfind c [] = None"
| "rfind c (x # xs) =
     (case rfind c xs of
        Some i \<Rightarrow> Some (Suc i)
      | None \<Rightarrow> if x = c then Some 0 else None)"

definition path_suffix :: "path \<Rightarrow> string" where
  "path_suffix p =
     (let name = path_name p
      in case rfind (CHR ''.'') name of
           None \<Rightarrow> []
         | Some i \<Rightarrow> if 0 < i \<and> Suc i < length name then drop i name else [])"

definition with_suffix :: "path \<Rightarrow> string \<Rightarrow> exn + path" where
  "with_suffix p suf =
     (if CHR ''/'' \<in> set suf then Inl ValueError
      else if (suf \<noteq> [] \<and> \<not> prefix ''.'' suf) \<or> suf = ''.'' then Inl ValueError
      else let name = path_name p in
        if name = [] then Inl ValueError
        else let old_suffix = path_suffix p;
                 name' = (if old_suffix = [] then name @ suf
                          else take (length name - length old_suffix) name @ suf)
             in Inr (butlast p @ [name']))"

definition relative_to :: "path \<Rightarrow> path \<Rightarrow> exn + path" where
  "relative_to p other = (if prefix other p then Inr (drop (length other) p) else Inl ValueError)"

text \<open>
  A directory entry is a readable text file or something that exists but whose
  \<^verbatim>\<open>open\<close>/\<^verbatim>\<open>read\<close> raises (a directory, no permission, bytes that are not UTF-8).
\<close>

datatype node = File string | Unreadable

type_synonym filesystem = "path \<rightharpoonup> node"

section \<open>The fragment of \<^verbatim>\<open>re\<close> the scripts use\<close>

text \<open>
  The patterns of the scripts are sequences of literal characters, escaped punctuation,
  \<^verbatim>\<open>\s*\<close> and (under \<^verbatim>\<open>re.DOTALL\<close>) \<^verbatim>\<open>.*?\<close>. A pattern is kept as its source text, as
  in the scripts, and compiled when \<^verbatim>\<open>re.findall\<close> or \<^verbatim>\<open>re.sub\<close> is called.
\<close>

datatype atom = Chr char | Space | AnyChar | NotNewline

datatype piece = One atom | Star atom | LazyStar atom

fun accepts :: "atom \<Rightarrow> char \<Rightarrow> bool" where
  "accepts (Chr x) c = (c = x)"
| "accepts Space c = isspace c"
| "accepts AnyChar c = True"
| "accepts NotNewline c = (c \<noteq> CHR 0x0A)"

definition ascii_alnum :: "char \<Rightarrow> bool" where
  "ascii_alnum c =
     (let n = (of_char c :: nat)
      in (48 \<le> n \<and> n \<le> 57) \<or> (65 \<le> n \<and> n \<le> 90) \<or> (97 \<le> n \<and> n \<le> 122))"

datatype pstate = Start | Esc | Have atom | Starred atom

text \<open>What a character means where an atom is expected.\<close>

definition begin_atom :: "bool \<Rightarrow> char \<Rightarrow> exn + pstate" where
  "begin_atom dotall c =
     (if c = CHR 0x5C then Inr Esc
      else if c = CHR ''.'' then Inr (Have (if dotall then AnyChar else NotNewline))
      else if c \<in> set ''*?+)'' then Inl ReError
      else if c \<in> set ''^$|([{'' then Inl Unsupported
      else Inr (Have (Chr c)))"

definition emit :: "piece \<Rightarrow> exn + piece list \<Rightarrow> exn + piece list" where
  "emit p r = (case r of Inl e \<Rightarrow> Inl e | Inr ps \<Rightarrow> Inr (p # ps))"

fun parse :: "bool \<Rightarrow> pstate \<Rightarrow> string \<Rightarrow> exn + piece list" where
  "parse dotall Start [] = Inr []"
| "parse dotall Esc [] = Inl ReError"
| "parse dotall (Have a) [] = Inr [One a]"
| "parse dotall (Starred a) [] = Inr [Star a]"
| "parse dotall Start (c # cs) =
     (case begin_atom dotall c of Inl e \<Rightarrow> Inl e | Inr st \<Rightarrow> parse dotall st cs)"
| "parse dotall Esc (c # cs) =
     (if c = CHR ''s'' then parse dotall (Have Space) cs
      else if ascii_alnum c then Inl Unsupported
      else parse dotall (Have (Chr c)) cs)"
| "parse dotall (Have a) (c # cs) =
     (if c = CHR ''*'' then parse dotall (Starred a) cs
      else if c \<in> set ''?+{'' then Inl Unsupported
      else case begin_atom dotall c of
             Inl e \<Rightarrow> Inl e
           | Inr st \<Rightarrow> emit (One a) (parse dotall st cs))"
| "parse dotall (Starred a) (c # cs) =
     (if c = CHR ''?'' then emit (LazyStar a) (parse dotall Start cs)
      else if c = CHR ''+'' then Inl Unsupported
      else case begin_atom dotall c of
             Inl e \<Rightarrow> Inl e
           | Inr st \<Rightarrow> emit (Star a) (parse dotall st cs))"

definition re_compile :: "bool \<Rightarrow> string \<Rightarrow> exn + piece list" where
  "re_compile dotall pattern = parse dotall Start pattern"

text \<open>
  The backtracking matcher, anchored at the head of the string. It returns the rest of the
  string after the first match in the engine's priority order. \<open>adv\<close> is the engine's
  \<^verbatim>\<open>must_advance\<close>: a match that consumed nothing is refused.
\<close>

fun matchp :: "piece list \<Rightarrow> string \<Rightarrow> bool \<Rightarrow> string option" where
  "matchp [] s adv = (if adv then None else Some s)"
| "matchp (One a # ps) [] adv = None"
| "matchp (One a # ps) (c # cs) adv = (if accepts a c then matchp ps cs False else None)"
| "matchp (Star a # ps) [] adv = matchp ps [] adv"
| "matchp (Star a # ps) (c # cs) adv =
     (if accepts a c
      then (case matchp (Star a # ps) cs False of
              Some r \<Rightarrow> Some r
            | None \<Rightarrow> matchp ps (c # cs) adv)
      else matchp ps (c # cs) adv)"
| "matchp (LazyStar a # ps) [] adv = matchp ps [] adv"
| "matchp (LazyStar a # ps) (c # cs) adv =
     (case matchp ps (c # cs) adv of
        Some r \<Rightarrow> Some r
      | None \<Rightarrow> if accepts a c then matchp (LazyStar a # ps) cs False else None)"

lemma matchp_rest:
  "matchp ps s adv = Some r \<Longrightarrow> length r \<le> length s \<and> (adv \<longrightarrow> length r < length s)"
  by (induction ps s adv arbitrary: r rule: matchp.induct)
     (fastforce split: if_splits option.splits)+

text \<open>
  The scanning loops of \<^verbatim>\<open>findall\<close> and \<^verbatim>\<open>sub\<close>: try a match at the current position;
  after a match continue behind it (refusing an empty match there if this one was empty),
  otherwise step over one character.
\<close>

function findall_from :: "piece list \<Rightarrow> string \<Rightarrow> bool \<Rightarrow> string list" where
  "findall_from ps s adv =
     (case matchp ps s adv of
        Some r \<Rightarrow> take (length s - length r) s # findall_from ps r (length r = length s)
      | None \<Rightarrow> (case s of [] \<Rightarrow> [] | c # cs \<Rightarrow> findall_from ps cs False))"
  by pat_completeness auto
termination
  by (relation "measures [\<lambda>(ps, s, adv). length s, \<lambda>(ps, s, adv). if adv then 0 else 1]")
     (auto dest: matchp_rest)

function sub_from :: "piece list \<Rightarrow> string \<Rightarrow> string \<Rightarrow> bool \<Rightarrow> string" where
  "sub_from ps repl s adv =
     (case matchp ps s adv of
        Some r \<Rightarrow> repl @ sub_from ps repl r (length r = length s)
      | None \<Rightarrow> (case s of [] \<Rightarrow> [] | c # cs \<Rightarrow> c # sub_from ps repl cs False))"
  by pat_completeness auto
termination
  by (relation "measures [\<lambda>(ps, repl, s, adv). length s, \<lambda>(ps, repl, s, adv). if adv then 0 else 1]")
     (auto dest: matchp_rest)

declare findall_from.simps [simp del] sub_from.simps [simp del]

definition re_findall :: "string \<Rightarrow> string \<Rightarrow> exn + string list" where
  "re_findall pattern string =
     (case re_compile False pattern of
        Inl e \<Rightarrow> Inl e
      | Inr ps \<Rightarrow> Inr (findall_from ps string False))"

text \<open>
  \<^verbatim>\<open>re.sub(pattern, repl, string, flags)\<close>. A template without a backslash stands for
  itself; the scripts use no other.
\<close>

definition re_sub :: "bool \<Rightarrow> string \<Rightarrow> string \<Rightarrow> string \<Rightarrow> exn + string" where
  "re_sub dotall pattern repl string =
     (case re_compile dotall pattern of
        Inl e \<Rightarrow> Inl e
      | Inr ps \<Rightarrow> if CHR 0x5C \<in> set repl then Inl Unsupported
                  else Inr (sub_from ps repl string False))"

section \<open>\<^verbatim>\<open>migrate_to_isaac_4.5.py\<close>\<close>

abbreviation bs :: string where "bs \<equiv> [CHR 0x5C]"   \<comment> \<open>a backslash\<close>
abbreviation dq :: string where "dq \<equiv> [CHR 0x22]"   \<comment> \<open>a double quote\<close>

type_synonym rule = "string \<times> string"   \<comment> \<open>\<^verbatim>\<open>(old_pattern, new_pattern)\<close>\<close>

definition PYTHON_REPLACEMENTS :: "rule list" where
  "PYTHON_REPLACEMENTS =
     [(''from omni'' @ bs @ ''.isaac'' @ bs @ ''.core'' @ bs @ ''.world import World'',
       ''from isaacsim.core.api.world import World''),
      (''from omni'' @ bs @ ''.isaac'' @ bs @ ''.core import World'',
       ''from isaacsim.core.api import World''),
      (''from omni'' @ bs @ ''.isaac'' @ bs @ ''.core'' @ bs @ ''.objects import'',
       ''from isaacsim.core.api.objects import''),
      (''from omni'' @ bs @ ''.isaac'' @ bs @ ''.dynamic_control import'',
       ''from isaacsim.core.dynamic_control import''),
      (''from omni'' @ bs @ ''.isaac'' @ bs @ ''.sensor import Camera'',
       ''from isaacsim.sensors.camera import Camera'')]"

definition TOML_REPLACEMENTS :: "rule list" where
  "TOML_REPLACEMENTS =
     [(dq @ ''omni'' @ bs @ ''.isaac'' @ bs @ ''.core'' @ dq @ bs @ ''s*='' @ bs @ ''s*'' @ bs @ ''{'' @ bs @ ''}'',
       dq @ ''isaacsim.core.api'' @ dq @ '' = {}'')]"

text \<open>\<^verbatim>\<open>FILES_TO_MIGRATE['python']\<close>, \<^verbatim>\<open>FILES_TO_MIGRATE['toml']\<close> and \<^verbatim>\<open>ARDUPILOT_FILES\<close>.\<close>

definition FILES_TO_MIGRATE_python :: "path list" where
  "FILES_TO_MIGRATE_python =
     [[''examples'', ''0_template_app.py''],
      [''examples'', ''1_px4_single_vehicle.py''],
      [''examples'', ''2_px4_multi_vehicle.py''],
      [''examples'', ''3_ros2_single_vehicle.py''],
      [''examples'', ''4_python_single_vehicle.py''],
      [''examples'', ''5_python_multi_vehicle.py''],
      [''examples'', ''6_paper_results.py''],
      [''examples'', ''8_camera_vehicle.py''],
      [''examples'', ''9_people.py''],
      [''examples'', ''10_graphs.py''],
      [''examples'', ''11_ardupilot_multi_vehicle.py''],
      [''extensions'', ''pegasus.simulator'', ''pegasus'', ''simulator'', ''logic'', ''vehicles'', ''vehicle.py''],
      [''extensions'', ''pegasus.simulator'', ''pegasus'', ''simulator'', ''logic'', ''vehicles'', ''multirotor.py''],
      [''extensions'', ''pegasus.simulator'', ''pegasus'', ''simulator'', ''logic'', ''interface'', ''pegasus_interface.py''],
      [''extensions'', ''pegasus.simulator'', ''pegasus'', ''simulator'', ''logic'', ''backends'', ''ros2_backend.py''],
      [''extensions'', ''pegasus.simulator'', ''pegasus'', ''simulator'', ''logic'', ''people_backends'', ''ros2_people_backend.py''],
      [''extensions'', ''pegasus.simulator'', ''pegasus'', ''simulator'', ''logic'', ''people'', ''person.py''],
      [''extensions'', ''pegasus.simulator'', ''pegasus'', ''simulator'', ''logic'', ''graphs'', ''ros2_camera_graph.py''],
      [''extensions'', ''pegasus.simulator'', ''pegasus'', ''simulator'', ''logic'', ''graphical_sensors'', ''monocular_camera.py'']]"

definition FILES_TO_MIGRATE_toml :: "path list" where
  "FILES_TO_MIGRATE_toml =
     [[''extensions'', ''pegasus.simulator'', ''config'', ''extension.toml'']]"

definition ARDUPILOT_FILES :: "path list" where
  "ARDUPILOT_FILES =
     [[''extensions'', ''pegasus.simulator'', ''pegasus'', ''simulator'', ''logic'', ''backends'', ''ardupilot_mavlink_backend.py''],
      [''extensions'', ''pegasus.simulator'', ''pegasus'', ''simulator'', ''logic'', ''backends'', ''tools'', ''ardupilot_launch_tool.py'']]"

text \<open>
  What the scripts print, one constructor per \<^verbatim>\<open>print\<close> call that carries data; the
  printed lines are the only report the scripts produce.
\<close>

datatype msg =
    Header path bool bool      \<comment> \<open>root directory, mode, backup\<close>
  | Processing path            \<comment> \<open>\<^verbatim>\<open>Processing: {filepath.relative_to(root)}\<close>\<close>
  | ErrorReading               \<comment> \<open>\<^verbatim>\<open>Error reading file: {e}\<close>\<close>
  | BackedUp string            \<comment> \<open>\<^verbatim>\<open>Backed up to: {backup_path.name}\<close>\<close>
  | Updated nat                \<comment> \<open>\<^verbatim>\<open>Updated with {len(changes)} changes:\<close>\<close>
  | Change string string       \<comment> \<open>one entry of \<^verbatim>\<open>changes\<close>: \<^verbatim>\<open>{left} -> {new_pattern}\<close>\<close>
  | NoChangesNeeded
  | FileNotFound path          \<comment> \<open>\<^verbatim>\<open>File not found: {file_path}\<close>\<close>
  | FilesModified nat          \<comment> \<open>\<^verbatim>\<open>Files modified: {len(self.changes_made)}\<close>\<close>
  | WarningsHeader nat
  | WarningItem path
  | AttentionItem path         \<comment> \<open>an existing file of \<^verbatim>\<open>ARDUPILOT_FILES\<close>\<close>
  | Footer bool                \<comment> \<open>dry run or live\<close>
  | FixProcessing path
  | CreatedBackup string
  | Fixed

text \<open>
  The state the scripts act on: the attributes of the \<^verbatim>\<open>MigrationTool\<close> instance, the
  filesystem and standard output. \<open>writable p\<close> says whether the filesystem lets the
  process create or overwrite the file at \<open>p\<close>; where it does not, \<^verbatim>\<open>open(p, 'w')\<close> and
  \<^verbatim>\<open>shutil.copy2(_, p)\<close> raise and leave the file as it was.
\<close>

record state =
  root_path :: path
  dry_run :: bool
  no_backup :: bool
  changes_made :: "path list"
  warnings :: "path list"
  fs :: filesystem
  writable :: "path \<Rightarrow> bool"
  out :: "msg list"

text \<open>A call returns the exception it raised, if any, and the state it left behind.\<close>

type_synonym result = "exn option \<times> state"

definition print :: "msg \<Rightarrow> state \<Rightarrow> state" where
  "print m st = st\<lparr>out := out st @ [m]\<rparr>"

definition path_exists :: "state \<Rightarrow> path \<Rightarrow> bool" where
  "path_exists st p = (fs st p \<noteq> None)"

definition read_text :: "state \<Rightarrow> path \<Rightarrow> exn + string" where
  "read_text st p = (case fs st p of Some (File content) \<Rightarrow> Inr content | _ \<Rightarrow> Inl ReadFailure)"

text \<open>\<^verbatim>\<open>with open(p, 'w') as f: f.write(content)\<close>; \<open>store\<close> is its effect when it succeeds.\<close>

definition store :: "path \<Rightarrow> string \<Rightarrow> state \<Rightarrow> state" where
  "store p content st = st\<lparr>fs := (fs st)(p \<mapsto> File content)\<rparr>"

definition write_text :: "path \<Rightarrow> string \<Rightarrow> state \<Rightarrow> result" where
  "write_text p content st =
     (if writable st p then (None, store p content st) else (Some WriteFailure, st))"

text \<open>\<^verbatim>\<open>shutil.copy2\<close>; the scripts reach it only after the source has been read.\<close>

definition copy2 :: "path \<Rightarrow> path \<Rightarrow> state \<Rightarrow> result" where
  "copy2 src dst st =
     (case fs st src of
        Some (File content) \<Rightarrow>
          if writable st dst then (None, store dst content st) else (Some WriteFailure, st)
      | _ \<Rightarrow> (Some ReadFailure, st))"

definition backup_file :: "path \<Rightarrow> state \<Rightarrow> result" where
  "backup_file filepath st =
     (if no_backup st \<or> dry_run st then (None, st)
      else case with_suffix filepath (path_suffix filepath @ ''.bak'') of
             Inl e \<Rightarrow> (Some e, st)
           | Inr backup_path \<Rightarrow>
               if \<not> path_exists st backup_path
               then (case copy2 filepath backup_path st of
                       (Some e, st') \<Rightarrow> (Some e, st')
                     | (None, st') \<Rightarrow> (None, print (BackedUp (path_name backup_path)) st'))
               else (None, st))"

text \<open>
  The replacement loop of \<^verbatim>\<open>migrate_python_file\<close> and \<^verbatim>\<open>migrate_toml_file\<close>. The two
  differ in the left side of the entry they append to \<^verbatim>\<open>changes\<close>: \<^verbatim>\<open>matches[0]\<close> in the
  first, \<^verbatim>\<open>old_pattern\<close> in the second; \<open>left\<close> is that choice.
\<close>

fun apply_replacements ::
  "(string \<Rightarrow> string list \<Rightarrow> string) \<Rightarrow> rule list \<Rightarrow> string \<Rightarrow> (string \<times> string) list
     \<Rightarrow> exn + string \<times> (string \<times> string) list" where
  "apply_replacements left [] content changes = Inr (content, changes)"
| "apply_replacements left ((old_pattern, new_pattern) # rest) content changes =
     (case re_findall old_pattern content of
        Inl e \<Rightarrow> Inl e
      | Inr matches \<Rightarrow>
          if matches \<noteq> []
          then (case re_sub False old_pattern new_pattern content of
                  Inl e \<Rightarrow> Inl e
                | Inr content' \<Rightarrow>
                    apply_replacements left rest content'
                      (changes @ [(left old_pattern matches, new_pattern)]))
          else apply_replacements left rest content changes)"

definition python_left :: "string \<Rightarrow> string list \<Rightarrow> string" where
  "python_left old_pattern matches = hd matches"

definition toml_left :: "string \<Rightarrow> string list \<Rightarrow> string" where
  "toml_left old_pattern matches = old_pattern"

definition has_ardupilot :: "string \<Rightarrow> bool" where
  "has_ardupilot content = (py_in ''ardupilot'' (lower content) \<or> py_in ''ArduPilot'' content)"

text \<open>The tail shared by both functions: write if changed.\<close>

definition write_if_changed ::
  "path \<Rightarrow> string \<Rightarrow> string \<Rightarrow> (string \<times> string) list \<Rightarrow> state \<Rightarrow> result" where
  "write_if_changed filepath original_content content changes st =
     (if content \<noteq> original_content
      then (case (if \<not> dry_run st
                  then (case backup_file filepath st of
                          (Some e, st') \<Rightarrow> (Some e, st')
                        | (None, st') \<Rightarrow> write_text filepath content st')
                  else (None, st)) of
              (Some e, st') \<Rightarrow> (Some e, st')
            | (None, st') \<Rightarrow>
                (let st'' = foldl (\<lambda>s (l, r). print (Change l r) s)
                              (print (Updated (length changes)) st') changes
                 in (None, st''\<lparr>changes_made := changes_made st'' @ [filepath]\<rparr>)))
      else (None, print NoChangesNeeded st))"

definition migrate_python_file_with :: "rule list \<Rightarrow> path \<Rightarrow> state \<Rightarrow> result" where
  "migrate_python_file_with rules filepath st =
     (case relative_to filepath (root_path st) of
        Inl e \<Rightarrow> (Some e, st)
      | Inr rel \<Rightarrow>
          (let st1 = print (Processing rel) st in
           case read_text st1 filepath of
             Inl e \<Rightarrow> (None, print ErrorReading st1)
           | Inr original_content \<Rightarrow>
               (case apply_replacements python_left rules original_content [] of
                  Inl e \<Rightarrow> (Some e, st1)
                | Inr (content, changes) \<Rightarrow>
                    (let st2 = (if has_ardupilot content
                                then st1\<lparr>warnings := warnings st1 @ [filepath]\<rparr> else st1)
                     in write_if_changed filepath original_content content changes st2))))"

definition migrate_toml_file_with :: "rule list \<Rightarrow> path \<Rightarrow> state \<Rightarrow> result" where
  "migrate_toml_file_with rules filepath st =
     (case relative_to filepath (root_path st) of
        Inl e \<Rightarrow> (Some e, st)
      | Inr rel \<Rightarrow>
          (let st1 = print (Processing rel) st in
           case read_text st1 filepath of
             Inl e \<Rightarrow> (None, print ErrorReading st1)
           | Inr original_content \<Rightarrow>
               (case apply_replacements toml_left rules original_content [] of
                  Inl e \<Rightarrow> (Some e, st1)
                | Inr (content, changes) \<Rightarrow>
                    write_if_changed filepath original_content content changes st1)))"

definition migrate_python_file :: "path \<Rightarrow> state \<Rightarrow> result" where
  "migrate_python_file = migrate_python_file_with PYTHON_REPLACEMENTS"

definition migrate_toml_file :: "path \<Rightarrow> state \<Rightarrow> result" where
  "migrate_toml_file = migrate_toml_file_with TOML_REPLACEMENTS"

text \<open>The two \<^verbatim>\<open>for file_path in FILES_TO_MIGRATE[...]\<close> loops of \<^verbatim>\<open>run_migration\<close>.\<close>

fun process_files :: "(path \<Rightarrow> state \<Rightarrow> result) \<Rightarrow> path list \<Rightarrow> state \<Rightarrow> result" where
  "process_files migrate [] st = (None, st)"
| "process_files migrate (file_path # rest) st =
     (let full_path = joinpath (root_path st) file_path in
      if path_exists st full_path
      then (case migrate full_path st of
              (Some e, st') \<Rightarrow> (Some e, st')
            | (None, st') \<Rightarrow> process_files migrate rest st')
      else process_files migrate rest (print (FileNotFound file_path) st))"

fun print_warnings :: "path list \<Rightarrow> state \<Rightarrow> result" where
  "print_warnings [] st = (None, st)"
| "print_warnings (warning # rest) st =
     (case relative_to warning (root_path st) of
        Inl e \<Rightarrow> (Some e, st)
      | Inr rel \<Rightarrow> print_warnings rest (print (WarningItem rel) st))"

fun print_attention :: "path list \<Rightarrow> state \<Rightarrow> state" where
  "print_attention [] st = st"
| "print_attention (ardupilot_file # rest) st =
     print_attention rest
       (if path_exists st (joinpath (root_path st) ardupilot_file)
        then print (AttentionItem ardupilot_file) st else st)"

definition summary :: "state \<Rightarrow> result" where
  "summary st =
     (let st1 = print (FilesModified (length (changes_made st))) st in
      case (if warnings st1 \<noteq> []
            then print_warnings (warnings st1) (print (WarningsHeader (length (warnings st1))) st1)
            else (None, st1)) of
        (Some e, st2) \<Rightarrow> (Some e, st2)
      | (None, st2) \<Rightarrow> (None, print (Footer (dry_run st2)) (print_attention ARDUPILOT_FILES st2)))"

text \<open>
  \<^verbatim>\<open>run_migration\<close>, with the module's tables as arguments; \<open>run_migration\<close> below is the
  script's own, on its own tables.
\<close>

definition run_migration_with ::
  "rule list \<Rightarrow> rule list \<Rightarrow> path list \<Rightarrow> path list \<Rightarrow> state \<Rightarrow> result" where
  "run_migration_with py_rules toml_rules py_files toml_files st =
     (case process_files (migrate_python_file_with py_rules) py_files
             (print (Header (root_path st) (dry_run st) (no_backup st)) st) of
        (Some e, st1) \<Rightarrow> (Some e, st1)
      | (None, st1) \<Rightarrow>
          (case process_files (migrate_toml_file_with toml_rules) toml_files st1 of
             (Some e, st2) \<Rightarrow> (Some e, st2)
           | (None, st2) \<Rightarrow> summary st2))"


text \<open>
  \<^verbatim>\<open>MigrationTool(root_path, dry_run, no_backup)\<close> on a given filesystem in which every
  path may be written; a filesystem that refuses some writes is such a state with its
  \<open>writable\<close> field updated.
\<close>

definition MigrationTool :: "path \<Rightarrow> bool \<Rightarrow> bool \<Rightarrow> filesystem \<Rightarrow> state" where
  "MigrationTool root dry nobak files =
     \<lparr>root_path = root, dry_run = dry, no_backup = nobak, changes_made = [], warnings = [],
      fs = files, writable = (\<lambda>p. True), out = []\<rparr>"

section \<open>\<^verbatim>\<open>fix_ardupilot_for_isaac_4.5.py\<close>\<close>

definition dynamic_control_pattern :: string where
  "dynamic_control_pattern = ''from omni'' @ bs @ ''.isaac'' @ bs @ ''.dynamic_control import _dynamic_control''"

definition dynamic_control_replacement :: string where
  "dynamic_control_replacement = ''from isaacsim.core.dynamic_control import _dynamic_control''"

definition func_pattern :: string where
  "func_pattern = ''def get_world_transform_xform'' @ bs @ ''(prim: Usd'' @ bs @ ''.Prim'' @ bs @ ''):.*?return rotation''"

definition new_function :: string where
  "new_function =
     ''def get_world_transform_xform(prim: Usd.Prim):\<newline>'' @
     ''    '' @ dq @ dq @ dq @ ''\<newline>'' @
     ''    Get the local transformation of a prim using USD APIs directly.\<newline>'' @
     ''    Compatible with Isaac Sim 4.5.\<newline>'' @
     ''    \<newline>'' @
     ''    Args:\<newline>'' @
     ''        prim (Usd.Prim): The prim to calculate the world transformation.\<newline>'' @
     ''    Returns:\<newline>'' @
     ''        Gf.Rotation: The rotation component of the world transform.\<newline>'' @
     ''    '' @ dq @ dq @ dq @ ''\<newline>'' @
     ''    from pxr import UsdGeom\<newline>'' @
     ''    \<newline>'' @
     ''    # Get the xformable interface\<newline>'' @
     ''    xformable = UsdGeom.Xformable(prim)\<newline>'' @
     ''    if not xformable:\<newline>'' @
     ''        carb.log_error(f'' @ dq @ ''Prim {prim.GetPath()} is not xformable'' @ dq @ '')\<newline>'' @
     ''        return Gf.Rotation()\<newline>'' @
     ''    \<newline>'' @
     ''    # Compute world transform at default time\<newline>'' @
     ''    time = Usd.TimeCode.Default()\<newline>'' @
     ''    world_transform = xformable.ComputeLocalToWorldTransform(time)\<newline>'' @
     ''    \<newline>'' @
     ''    # Extract rotation using Gf.Transform\<newline>'' @
     ''    transform = Gf.Transform(world_transform)\<newline>'' @
     ''    return transform.GetRotation()''"

text \<open>The backup both functions make right after reading, before any rewriting.\<close>

definition ardupilot_backup :: "path \<Rightarrow> state \<Rightarrow> result" where
  "ardupilot_backup filepath st =
     (case with_suffix filepath ''.py.ardupilot_backup'' of
        Inl e \<Rightarrow> (Some e, st)
      | Inr backup_path \<Rightarrow>
          if \<not> path_exists st backup_path
          then (case copy2 filepath backup_path st of
                  (Some e, st') \<Rightarrow> (Some e, st')
                | (None, st') \<Rightarrow> (None, print (CreatedBackup (path_name backup_path)) st'))
          else (None, st))"

definition fix_vehicle_file :: "path \<Rightarrow> state \<Rightarrow> result" where
  "fix_vehicle_file filepath st =
     (let st1 = print (FixProcessing filepath) st in
      case read_text st1 filepath of
        Inl e \<Rightarrow> (Some e, st1)
      | Inr original_content \<Rightarrow>
          (case ardupilot_backup filepath st1 of
             (Some e, st2) \<Rightarrow> (Some e, st2)
           | (None, st2) \<Rightarrow>
               (case re_sub False dynamic_control_pattern dynamic_control_replacement
                       original_content of
                  Inl e \<Rightarrow> (Some e, st2)
                | Inr content1 \<Rightarrow>
                    (case re_sub True func_pattern new_function content1 of
                       Inl e \<Rightarrow> (Some e, st2)
                     | Inr content \<Rightarrow>
                         if content \<noteq> original_content
                         then (case write_text filepath content st2 of
                                 (Some e, st3) \<Rightarrow> (Some e, st3)
                               | (None, st3) \<Rightarrow> (None, print Fixed st3))
                         else (None, print NoChangesNeeded st2)))))"

definition fix_multirotor_file :: "path \<Rightarrow> state \<Rightarrow> result" where
  "fix_multirotor_file filepath st =
     (let st1 = print (FixProcessing filepath) st in
      case read_text st1 filepath of
        Inl e \<Rightarrow> (Some e, st1)
      | Inr original_content \<Rightarrow>
          (case ardupilot_backup filepath st1 of
             (Some e, st2) \<Rightarrow> (Some e, st2)
           | (None, st2) \<Rightarrow>
               (case re_sub False dynamic_control_pattern dynamic_control_replacement
                       original_content of
                  Inl e \<Rightarrow> (Some e, st2)
                | Inr content \<Rightarrow>
                    if content \<noteq> original_content
                    then (case write_text filepath content st2 of
                            (Some e, st3) \<Rightarrow> (Some e, st3)
                          | (None, st3) \<Rightarrow> (None, print Fixed st3))
                    else (None, print NoChangesNeeded st2))))"

section \<open>Auxiliary definitions\<close>

text \<open>The part of the state no function of the scripts assigns after construction.\<close>

definition settings :: "state \<Rightarrow> path \<times> bool \<times> bool \<times> (path \<Rightarrow> bool)" where
  "settings st = (root_path st, dry_run st, no_backup st, writable st)"


text \<open>
  Several runs on one target, each with its own rule list and its own \<^verbatim>\<open>--dry-run\<close> and
  \<^verbatim>\<open>--no-backup\<close> flags, on the filesystem the run before left.
\<close>

fun repeated ::
  "(rule list \<Rightarrow> path \<Rightarrow> state \<Rightarrow> result) \<Rightarrow> (rule list \<times> bool \<times> bool) list \<Rightarrow> path \<Rightarrow> state \<Rightarrow> state" where
  "repeated migrate [] filepath st = st"
| "repeated migrate ((rules, dry, nobak) # rest) filepath st =
     repeated migrate rest filepath
       (snd (migrate rules filepath (st\<lparr>dry_run := dry, no_backup := nobak\<rparr>)))"

text \<open>
  Every pattern of a rule list compiles and no template holds a backslash; a relative path
  names a file.
\<close>

definition rules_compile :: "rule list \<Rightarrow> bool" where
  "rules_compile rules =
     list_all (\<lambda>(old_pattern, new_pattern).
                 \<not> isl (re_compile False old_pattern) \<and> CHR 0x5C \<notin> set new_pattern) rules"

definition proper_file :: "path \<Rightarrow> bool" where
  "proper_file file_path = (file_path \<noteq> [] \<and> last file_path \<noteq> [] \<and> CHR ''/'' \<notin> set (last file_path))"

text \<open>
  For stating what \<^verbatim>\<open>re.sub\<close> replaces: the text between the matches, found by the same
  scan (as \<^verbatim>\<open>re.split\<close> returns it), and the interleaving of such pieces with the matches
  or with their replacements.
\<close>

fun weave :: "string list \<Rightarrow> string list \<Rightarrow> string" where
  "weave (g # gs) (m # ms) = g @ m @ weave gs ms"
| "weave (g # gs) [] = g"
| "weave [] ms = []"

function split_from :: "piece list \<Rightarrow> string \<Rightarrow> bool \<Rightarrow> string list" where
  "split_from ps s adv =
     (case matchp ps s adv of
        Some r \<Rightarrow> [] # split_from ps r (length r = length s)
      | None \<Rightarrow> (case s of
                   [] \<Rightarrow> [[]]
                 | c # cs \<Rightarrow> (case split_from ps cs False of
                                [] \<Rightarrow> []
                              | g # gs \<Rightarrow> (c # g) # gs)))"
  by pat_completeness auto
termination
  by (relation "measures [\<lambda>(ps, s, adv). length s, \<lambda>(ps, s, adv). if adv then 0 else 1]")
     (auto dest: matchp_rest)

declare split_from.simps [simp del]

text \<open>
  For the idempotence of a rule list. \<open>lit_reject ps u\<close> decides from the leading pieces of
  a pattern that it cannot match a text starting with \<open>u\<close>; \<open>fits ps repl\<close> says that a
  pattern can neither match inside or across a replacement text \<open>repl\<close> nor start in it;
  \<open>stable\<close> asks this of every pattern against its own and every later replacement;
  \<open>nomatch\<close> says that a pattern matches at no position of a text; \<open>rewrite\<close> is the text
  the replacement loop leaves; \<open>settled\<close> says that no pattern of the list matches anywhere.
\<close>

fun lit_reject :: "piece list \<Rightarrow> string \<Rightarrow> bool" where
  "lit_reject (One a # ps) (c # cs) = (if accepts a c then lit_reject ps cs else True)"
| "lit_reject (Star a # ps) (c # cs) = (if accepts a c then False else lit_reject ps (c # cs))"
| "lit_reject ps cs = False"

fun rejects_inside :: "piece list \<Rightarrow> string \<Rightarrow> bool" where
  "rejects_inside ps [] = True"
| "rejects_inside ps (c # cs) = (lit_reject ps (c # cs) \<and> rejects_inside ps cs)"

fun pulls_back :: "char \<Rightarrow> string \<Rightarrow> piece list \<Rightarrow> bool" where
  "pulls_back x repl' [] = True"
| "pulls_back x repl' (One a # ps) =
     ((if accepts a x then lit_reject ps repl' else True) \<and> pulls_back x repl' ps)"
| "pulls_back x repl' (Star a # ps) = (if accepts a x then False else pulls_back x repl' ps)"
| "pulls_back x repl' (LazyStar a # ps) = (if accepts a x then False else pulls_back x repl' ps)"

definition fits :: "piece list \<Rightarrow> string \<Rightarrow> bool" where
  "fits ps repl =
     (case repl of [] \<Rightarrow> False | x # repl' \<Rightarrow> pulls_back x repl' ps \<and> rejects_inside ps repl)"

definition starts_one :: "piece list \<Rightarrow> bool" where
  "starts_one ps = (case ps of One a # rest \<Rightarrow> True | _ \<Rightarrow> False)"

fun nomatch :: "piece list \<Rightarrow> string \<Rightarrow> bool" where
  "nomatch ps [] = (matchp ps [] False = None)"
| "nomatch ps (c # cs) = (matchp ps (c # cs) False = None \<and> nomatch ps cs)"

fun stable :: "rule list \<Rightarrow> bool" where
  "stable [] = True"
| "stable ((old_pattern, new_pattern) # rest) =
     (case re_compile False old_pattern of
        Inl e \<Rightarrow> False
      | Inr ps \<Rightarrow>
          CHR 0x5C \<notin> set new_pattern \<and> starts_one ps \<and>
          list_all (\<lambda>(old', new'). fits ps new') ((old_pattern, new_pattern) # rest) \<and>
          stable rest)"


fun rewrite :: "rule list \<Rightarrow> string \<Rightarrow> string" where
  "rewrite [] content = content"
| "rewrite ((old_pattern, new_pattern) # rest) content =
     rewrite rest
       (case re_compile False old_pattern of
          Inl e \<Rightarrow> content
        | Inr ps \<Rightarrow> sub_from ps new_pattern content False)"


definition settled :: "rule list \<Rightarrow> string \<Rightarrow> bool" where
  "settled rules content =
     list_all (\<lambda>(old_pattern, new_pattern).
                 case re_compile False old_pattern of
                   Inl e \<Rightarrow> False
                 | Inr ps \<Rightarrow> nomatch ps content) rules"

text \<open>
  The backup path of a target, relative to the root; a list of targets none of which is
  listed twice or is the backup path of another.
\<close>

definition bak_rel :: "path \<Rightarrow> path" where
  "bak_rel file_path = butlast file_path @ [last file_path @ ''.bak'']"

definition no_alias :: "path list \<Rightarrow> bool" where
  "no_alias files = (distinct files \<and> list_all (\<lambda>f. bak_rel f \<notin> set files) files)"

section \<open>Frame lemmas\<close>


lemma print_fields [simp]:
  "root_path (print m st) = root_path st"
  "dry_run (print m st) = dry_run st"
  "no_backup (print m st) = no_backup st"
  "changes_made (print m st) = changes_made st"
  "warnings (print m st) = warnings st"
  "fs (print m st) = fs st"
  "writable (print m st) = writable st"
  "out (print m st) = out st @ [m]"
  by (simp_all add: print_def)

lemma store_fields [simp]:
  "root_path (store p c st) = root_path st"
  "dry_run (store p c st) = dry_run st"
  "no_backup (store p c st) = no_backup st"
  "changes_made (store p c st) = changes_made st"
  "warnings (store p c st) = warnings st"
  "fs (store p c st) = (fs st)(p \<mapsto> File c)"
  "writable (store p c st) = writable st"
  "out (store p c st) = out st"
  by (simp_all add: store_def)

lemma path_exists_print [simp]: "path_exists (print m st) p = path_exists st p"
  by (simp add: path_exists_def)

lemma read_text_print [simp]: "read_text (print m st) p = read_text st p"
  by (simp add: read_text_def)

lemma settings_simps [simp]:
  "settings (print m st) = settings st"
  "settings (store p c st) = settings st"
  "settings (st\<lparr>warnings := w\<rparr>) = settings st"
  "settings (st\<lparr>changes_made := cm\<rparr>) = settings st"
  "settings (st\<lparr>fs := f\<rparr>) = settings st"
  "settings (st\<lparr>out := ou\<rparr>) = settings st"
  by (simp_all add: settings_def)

lemma settings_eqD:
  "settings st' = settings st \<Longrightarrow>
     root_path st' = root_path st \<and> dry_run st' = dry_run st \<and> no_backup st' = no_backup st \<and>
     writable st' = writable st"
  by (simp add: settings_def)

lemma write_text_frame:
  "write_text p c st = (e, st') \<Longrightarrow>
     settings st' = settings st \<and> changes_made st' = changes_made st \<and>
     warnings st' = warnings st \<and> out st' = out st"
  by (auto simp: write_text_def split: if_splits)

lemma copy2_frame:
  "copy2 src dst st = (e, st') \<Longrightarrow>
     settings st' = settings st \<and> changes_made st' = changes_made st \<and>
     warnings st' = warnings st \<and> out st' = out st"
  by (auto simp: copy2_def split: option.splits node.splits if_splits)

lemma backup_file_frame:
  "backup_file p st = (e, st') \<Longrightarrow>
     settings st' = settings st \<and> changes_made st' = changes_made st \<and>
     warnings st' = warnings st \<and> prefix (out st) (out st')"
  by (auto simp: backup_file_def split: if_splits sum.splits prod.splits option.splits
           dest!: copy2_frame)

lemma backup_file_dry: "dry_run st \<or> no_backup st \<Longrightarrow> backup_file p st = (None, st)"
  by (auto simp: backup_file_def)

lemma foldl_print_fields [simp]:
  "settings (foldl (\<lambda>s (l, r). print (Change l r) s) st xs) = settings st"
  "changes_made (foldl (\<lambda>s (l, r). print (Change l r) s) st xs) = changes_made st"
  "warnings (foldl (\<lambda>s (l, r). print (Change l r) s) st xs) = warnings st"
  "fs (foldl (\<lambda>s (l, r). print (Change l r) s) st xs) = fs st"
  "out (foldl (\<lambda>s (l, r). print (Change l r) s) st xs) = out st @ map (\<lambda>(l, r). Change l r) xs"
  by (induction xs arbitrary: st; simp add: case_prod_beta)+

lemma write_if_changed_frame:
  "write_if_changed p c0 c ch st = (e, st') \<Longrightarrow>
     settings st' = settings st \<and> warnings st' = warnings st \<and> prefix (out st) (out st')"
  unfolding write_if_changed_def
  by (auto split: if_splits prod.splits option.splits dest!: backup_file_frame write_text_frame
           simp: Let_def prefix_def)

lemma migrate_toml_file_with_frame:
  "migrate_toml_file_with rules p st = (e, st') \<Longrightarrow>
     settings st' = settings st \<and> warnings st' = warnings st \<and> prefix (out st) (out st')"
  unfolding migrate_toml_file_with_def
  by (auto split: sum.splits prod.splits simp: Let_def prefix_def dest!: write_if_changed_frame)

lemma migrate_python_file_with_frame:
  "migrate_python_file_with rules p st = (e, st') \<Longrightarrow>
     settings st' = settings st \<and> prefix (out st) (out st') \<and>
     (warnings st' = warnings st \<or> warnings st' = warnings st @ [p])"
  unfolding migrate_python_file_with_def
  by (auto split: sum.splits prod.splits if_splits simp: Let_def prefix_def
           dest!: write_if_changed_frame)


lemma rfind_Some:
  "rfind c s = Some i \<Longrightarrow> i < length s \<and> s ! i = c \<and> c \<notin> set (drop (Suc i) s)"
proof (induction s arbitrary: i)
  case Nil
  then show ?case by simp
next
  case (Cons x xs)
  show ?case
  proof (cases "rfind c xs")
    case None
    with Cons.prems have "x = c" "i = 0" by (auto split: if_splits)
    moreover have "c \<notin> set xs" using None
      by (induction xs) (auto split: option.splits if_splits)
    ultimately show ?thesis by simp
  next
    case (Some j)
    with Cons.prems have "i = Suc j" by simp
    with Cons.IH [OF Some] show ?thesis by simp
  qed
qed

lemma path_suffix_cases:
  "path_suffix p = [] \<or>
   (\<exists>i. i < length (path_name p) \<and> path_suffix p = drop i (path_name p) \<and>
        path_name p ! i = CHR ''.'' \<and> CHR ''.'' \<notin> set (drop (Suc i) (path_name p)))"
  by (auto simp: path_suffix_def Let_def split: option.splits dest: rfind_Some)

lemma with_suffix_name:
  assumes "with_suffix p suf = Inr bp"
  shows "\<exists>stem. bp = butlast p @ [stem @ suf] \<and> path_name p = stem @ path_suffix p \<and> p \<noteq> []"
proof -
  from assms have ne: "path_name p \<noteq> []"
    by (auto simp: with_suffix_def Let_def split: if_splits)
  then have p: "p \<noteq> []" by (auto simp: path_name_def)
  show ?thesis
  proof (cases "path_suffix p = []")
    case True
    with assms ne p show ?thesis
      by (auto simp: with_suffix_def Let_def split: if_splits)
  next
    case False
    with path_suffix_cases [of p] obtain i where
      i: "i < length (path_name p)" "path_suffix p = drop i (path_name p)" by auto
    then have "take (length (path_name p) - length (path_suffix p)) (path_name p) = take i (path_name p)"
      by simp
    with assms ne p False i show ?thesis
      by (auto simp: with_suffix_def Let_def split: if_splits intro!: exI [of _ "take i (path_name p)"])
  qed
qed

lemma with_suffix_bak:
  assumes "path_name p \<noteq> []" "CHR ''/'' \<notin> set (path_name p)"
  shows "with_suffix p (path_suffix p @ ''.bak'') = Inr (butlast p @ [path_name p @ ''.bak''])"
proof (cases "path_suffix p = []")
  case True
  with assms show ?thesis by (simp add: with_suffix_def Let_def)
next
  case False
  with path_suffix_cases [of p] obtain i where
    i: "i < length (path_name p)" "path_suffix p = drop i (path_name p)"
       "path_name p ! i = CHR ''.''" by auto
  then have hd: "path_suffix p = CHR ''.'' # drop (Suc i) (path_name p)"
    using Cons_nth_drop_Suc [of i "path_name p"] by simp
  have tk: "take (length (path_name p) - length (path_suffix p)) (path_name p) @ path_suffix p
              = path_name p"
    using i by simp
  have "set (path_suffix p) \<subseteq> set (path_name p)" using i by (simp add: set_drop_subset)
  with assms have "CHR ''/'' \<notin> set (path_suffix p)" by auto
  with assms False hd tk show ?thesis
    by (simp add: with_suffix_def Let_def)
qed

lemma with_suffix_neq:
  assumes "with_suffix p suf = Inr bp" "suf \<noteq> path_suffix p"
  shows "bp \<noteq> p"
proof
  assume "bp = p"
  from with_suffix_name [OF assms(1)] obtain stem where
    s: "bp = butlast p @ [stem @ suf]" "path_name p = stem @ path_suffix p" "p \<noteq> []" by auto
  from s(3) have "p = butlast p @ [last p]" by simp
  with s(1) \<open>bp = p\<close> have "butlast p @ [stem @ suf] = butlast p @ [last p]" by simp
  then have "stem @ suf = last p" by simp
  with s(2,3) have "stem @ suf = stem @ path_suffix p" by (simp add: path_name_def)
  with assms(2) show False by simp
qed

lemma path_suffix_one_dot: "path_suffix p \<noteq> s1 @ ''.'' @ s2 @ ''.'' @ s3"
proof
  assume a: "path_suffix p = s1 @ ''.'' @ s2 @ ''.'' @ s3"
  then have "path_suffix p \<noteq> []" by simp
  with path_suffix_cases [of p] obtain i where
    i: "path_suffix p = drop i (path_name p)" "i < length (path_name p)"
       "CHR ''.'' \<notin> set (drop (Suc i) (path_name p))" by auto
  then have "path_suffix p = path_name p ! i # drop (Suc i) (path_name p)"
    using Cons_nth_drop_Suc [of i "path_name p"] by simp
  with a i(3) show False by (cases s1) auto
qed

lemma bak_suffix_neq: "path_suffix p @ ''.bak'' \<noteq> path_suffix p"
  by simp

lemma ardupilot_suffix_neq: "''.py.ardupilot_backup'' \<noteq> path_suffix p"
  using path_suffix_one_dot [of p "[]" "''py''" "''ardupilot_backup''"] by auto





lemma process_files_toml_frame:
  "process_files (migrate_toml_file_with rules) files st = (e, st') \<Longrightarrow>
     settings st' = settings st \<and> warnings st' = warnings st \<and> prefix (out st) (out st')"
proof (induction files arbitrary: st)
  case Nil
  then show ?case by simp
next
  case (Cons f files)
  show ?case
  proof (cases "path_exists st (joinpath (root_path st) f)")
    case False
    with Cons.prems have "process_files (migrate_toml_file_with rules) files
        (print (FileNotFound f) st) = (e, st')" by simp
    from Cons.IH [OF this] show ?thesis by (auto simp: prefix_def)
  next
    case True
    obtain e1 st1 where m: "migrate_toml_file_with rules (joinpath (root_path st) f) st = (e1, st1)"
      by (cases "migrate_toml_file_with rules (joinpath (root_path st) f) st")
    note fr = migrate_toml_file_with_frame [OF m]
    show ?thesis
    proof (cases e1)
      case (Some x)
      with Cons.prems True m have "st' = st1" by simp
      with fr show ?thesis by simp
    next
      case None
      with Cons.prems True m have "process_files (migrate_toml_file_with rules) files st1 = (e, st')"
        by simp
      from Cons.IH [OF this] fr show ?thesis by (auto intro: prefix_order.trans)
    qed
  qed
qed

lemma print_warnings_frame:
  "print_warnings ws st = (e, st') \<Longrightarrow>
     settings st' = settings st \<and> warnings st' = warnings st \<and> changes_made st' = changes_made st
     \<and> fs st' = fs st"
  by (induction ws arbitrary: st) (auto split: sum.splits)

lemma print_attention_frame [simp]:
  "settings (print_attention fl st) = settings st"
  "warnings (print_attention fl st) = warnings st"
  "changes_made (print_attention fl st) = changes_made st"
  "fs (print_attention fl st) = fs st"
  by (induction fl arbitrary: st; simp)+

lemma summary_frame:
  "summary st = (e, st') \<Longrightarrow>
     settings st' = settings st \<and> warnings st' = warnings st \<and> changes_made st' = changes_made st
     \<and> fs st' = fs st"
  unfolding summary_def Let_def
  by (auto split: if_splits prod.splits option.splits dest!: print_warnings_frame)

section \<open>Backups and writes\<close>

lemma write_text_fs:
  "write_text p c st = (e, st') \<Longrightarrow>
     (e = None \<and> writable st p \<and> fs st' = (fs st)(p \<mapsto> File c)) \<or> (e \<noteq> None \<and> fs st' = fs st)"
  by (auto simp: write_text_def split: if_splits)

lemma write_text_other:
  "write_text p c st = (e, st') \<Longrightarrow> q \<noteq> p \<Longrightarrow> fs st' q = fs st q"
  by (auto simp: write_text_def split: if_splits)

lemma backup_file_fs:
  assumes "with_suffix p (path_suffix p @ ''.bak'') = Inr bp"
  shows "fs (snd (backup_file p st)) =
           (if no_backup st \<or> dry_run st \<or> path_exists st bp \<or> \<not> writable st bp then fs st
            else case fs st p of Some (File c) \<Rightarrow> (fs st)(bp \<mapsto> File c) | _ \<Rightarrow> fs st)"
  using assms
  by (auto simp: backup_file_def copy2_def split: option.splits node.splits)

lemma backup_file_existing:
  "backup_file p st = (e, st') \<Longrightarrow> fs st q \<noteq> None \<Longrightarrow> fs st' q = fs st q"
  by (auto simp: backup_file_def copy2_def path_exists_def
           split: option.splits node.splits if_splits sum.splits)

lemma backup_file_other:
  assumes "backup_file p st = (e, st')" "with_suffix p (path_suffix p @ ''.bak'') = Inr bp" "q \<noteq> bp"
  shows "fs st' q = fs st q"
  using assms
  by (auto simp: backup_file_def copy2_def split: if_splits option.splits node.splits)


lemma write_if_changed_existing:
  assumes "write_if_changed p c0 c ch st = (e, st')" "q \<noteq> p" "fs st q \<noteq> None"
  shows "fs st' q = fs st q"
proof -
  obtain e1 st1 where b: "backup_file p st = (e1, st1)" by (cases "backup_file p st")
  obtain e2 st2 where w: "write_text p c st1 = (e2, st2)" by (cases "write_text p c st1")
  from backup_file_existing [OF b assms(3)] have 1: "fs st1 q = fs st q" .
  from write_text_other [OF w assms(2)] 1 have 2: "fs st2 q = fs st q" by simp
  from assms(1) b w 1 2 show ?thesis
    unfolding write_if_changed_def Let_def
    by (auto split: if_splits prod.splits option.splits)
qed

lemma write_if_changed_other:
  assumes "write_if_changed p c0 c ch st = (e, st')"
      and "with_suffix p (path_suffix p @ ''.bak'') = Inr bp" "q \<noteq> bp" "q \<noteq> p"
  shows "fs st' q = fs st q"
proof -
  obtain e1 st1 where b: "backup_file p st = (e1, st1)" by (cases "backup_file p st")
  obtain e2 st2 where w: "write_text p c st1 = (e2, st2)" by (cases "write_text p c st1")
  from backup_file_other [OF b assms(2,3)] have 1: "fs st1 q = fs st q" .
  from write_text_other [OF w assms(4)] 1 have 2: "fs st2 q = fs st q" by simp
  from assms(1) b w 1 2 show ?thesis
    unfolding write_if_changed_def Let_def
    by (auto split: if_splits prod.splits option.splits)
qed

lemma write_if_changed_dry:
  "dry_run st \<Longrightarrow> write_if_changed p c0 c ch st = (e, st') \<Longrightarrow> fs st' = fs st \<and> e = None"
  unfolding write_if_changed_def Let_def
  by (auto split: if_splits)

lemma write_if_changed_same:
  "write_if_changed p c0 c0 ch st = (None, print NoChangesNeeded st)"
  by (simp add: write_if_changed_def)

lemma write_if_changed_report:
  assumes "write_if_changed p c0 c ch st = (e, st')" "e = None"
  shows "changes_made st' = (if c \<noteq> c0 then changes_made st @ [p] else changes_made st)"
  using assms unfolding write_if_changed_def Let_def
  by (auto split: if_splits prod.splits option.splits dest!: backup_file_frame write_text_frame)

lemma write_if_changed_raise:
  assumes "write_if_changed p c0 c ch st = (e, st')" "e \<noteq> None"
  shows "changes_made st' = changes_made st \<and> c \<noteq> c0 \<and> \<not> dry_run st"
  using assms unfolding write_if_changed_def Let_def
  by (auto split: if_splits prod.splits option.splits dest!: backup_file_frame write_text_frame)


lemma write_if_changed_live:
  assumes "write_if_changed p c0 c ch st = (None, st')" "\<not> dry_run st" "fs st p = Some (File c0)"
  shows "fs st' p = Some (File c)"
proof (cases "c = c0")
  case True
  with assms show ?thesis by (auto simp: write_if_changed_def)
next
  case False
  obtain e1 st1 where b: "backup_file p st = (e1, st1)" by (cases "backup_file p st")
  obtain e2 st2 where w: "write_text p c st1 = (e2, st2)" by (cases "write_text p c st1")
  from assms(1,2) False b w have "e1 = None" "e2 = None" "fs st' = fs st2"
    unfolding write_if_changed_def Let_def
    by (auto split: if_splits prod.splits option.splits)
  with write_text_fs [OF w] show ?thesis by simp
qed

lemma write_if_changed_backup:
  assumes "with_suffix p (path_suffix p @ ''.bak'') = Inr bp"
  shows "fs (snd (write_if_changed p c0 c ch st)) bp = fs st bp \<or>
         fs st bp = None \<and> fs (snd (write_if_changed p c0 c ch st)) bp = fs st p"
proof -
  have ne: "bp \<noteq> p" using with_suffix_neq [OF assms] by simp
  obtain e1 st1 where b: "backup_file p st = (e1, st1)" by (cases "backup_file p st")
  obtain e2 st2 where w: "write_text p c st1 = (e2, st2)" by (cases "write_text p c st1")
  from backup_file_fs [OF assms, of st] b
  have 1: "fs st1 bp = fs st bp \<or> fs st bp = None \<and> fs st1 bp = fs st p"
    by (auto simp: path_exists_def split: if_splits option.splits node.splits)
  from write_text_other [OF w ne] have 2: "fs st2 bp = fs st1 bp" .
  from b w 1 2 show ?thesis
    unfolding write_if_changed_def Let_def
    by (auto split: if_splits prod.splits option.splits)
qed

lemma migrate_python_existing:
  "migrate_python_file_with rules p st = (e, st') \<Longrightarrow> q \<noteq> p \<Longrightarrow> fs st q \<noteq> None \<Longrightarrow>
     fs st' q = fs st q"
  unfolding migrate_python_file_with_def Let_def
  by (auto split: sum.splits prod.splits if_splits dest: write_if_changed_existing)

lemma migrate_toml_existing:
  "migrate_toml_file_with rules p st = (e, st') \<Longrightarrow> q \<noteq> p \<Longrightarrow> fs st q \<noteq> None \<Longrightarrow>
     fs st' q = fs st q"
  unfolding migrate_toml_file_with_def Let_def
  by (auto split: sum.splits prod.splits if_splits dest: write_if_changed_existing)

lemma migrate_python_backup:
  assumes "with_suffix p (path_suffix p @ ''.bak'') = Inr bp"
  shows "fs (snd (migrate_python_file_with rules p st)) bp = fs st bp \<or>
         fs st bp = None \<and> fs (snd (migrate_python_file_with rules p st)) bp = fs st p"
proof -
  have *: "fs (snd (write_if_changed p c0 c ch s)) bp = fs s bp \<or>
           fs s bp = None \<and> fs (snd (write_if_changed p c0 c ch s)) bp = fs s p" for c0 c ch s
    by (rule write_if_changed_backup [OF assms])
  show ?thesis
    unfolding migrate_python_file_with_def Let_def
    apply (simp split: sum.splits prod.splits)
    apply (intro allI impI conjI)
    subgoal for rel c0 c ch
      using * [of c0 c ch "(print (Processing rel) st)\<lparr>warnings := warnings st @ [p]\<rparr>"] by simp
    subgoal for rel c0 c ch
      using * [of c0 c ch "print (Processing rel) st"] by simp
    done
qed

lemma migrate_toml_backup:
  assumes "with_suffix p (path_suffix p @ ''.bak'') = Inr bp"
  shows "fs (snd (migrate_toml_file_with rules p st)) bp = fs st bp \<or>
         fs st bp = None \<and> fs (snd (migrate_toml_file_with rules p st)) bp = fs st p"
proof -
  have *: "fs (snd (write_if_changed p c0 c ch s)) bp = fs s bp \<or>
           fs s bp = None \<and> fs (snd (write_if_changed p c0 c ch s)) bp = fs s p" for c0 c ch s
    by (rule write_if_changed_backup [OF assms])
  show ?thesis
    unfolding migrate_toml_file_with_def Let_def
    apply (simp split: sum.splits prod.splits)
    apply (intro allI impI conjI)
    subgoal for rel c0 c ch
      using * [of c0 c ch "print (Processing rel) st"] by simp
    done
qed

lemma repeated_existing:
  assumes "\<And>rules st e st'. migrate rules p st = (e, st') \<Longrightarrow> fs st q \<noteq> None \<Longrightarrow> fs st' q = fs st q"
  shows "fs st q \<noteq> None \<Longrightarrow> fs (repeated migrate calls p st) q = fs st q"
proof (induction calls arbitrary: st)
  case Nil
  then show ?case by simp
next
  case (Cons call calls)
  obtain rules dry nobak where c: "call = (rules, dry, nobak)" by (cases call)
  let ?st0 = "st\<lparr>dry_run := dry, no_backup := nobak\<rparr>"
  obtain e st1 where m: "migrate rules p ?st0 = (e, st1)" by (cases "migrate rules p ?st0")
  from assms [OF m] Cons.prems have 1: "fs st1 q = fs st q" by simp
  with Cons.prems have "fs st1 q \<noteq> None" by simp
  from Cons.IH [OF this] 1 c m show ?case by simp
qed

lemma ardupilot_backup_existing:
  "ardupilot_backup p st = (e, st') \<Longrightarrow> fs st q \<noteq> None \<Longrightarrow> fs st' q = fs st q"
  by (auto simp: ardupilot_backup_def copy2_def path_exists_def
           split: option.splits node.splits if_splits sum.splits)

lemma ardupilot_backup_fs:
  assumes "with_suffix p ''.py.ardupilot_backup'' = Inr bp" "fs st p = Some (File c)"
  shows "ardupilot_backup p st =
           (if path_exists st bp then (None, st)
            else if writable st bp
            then (None, print (CreatedBackup (path_name bp)) (store bp c st))
            else (Some WriteFailure, st))"
  using assms by (simp add: ardupilot_backup_def copy2_def)

lemma fix_vehicle_existing:
  assumes "fix_vehicle_file p st = (e, st')" "q \<noteq> p" "fs st q \<noteq> None"
  shows "fs st' q = fs st q"
proof -
  let ?st1 = "print (FixProcessing p) st"
  obtain e2 st2 where b: "ardupilot_backup p ?st1 = (e2, st2)" by (cases "ardupilot_backup p ?st1")
  from ardupilot_backup_existing [OF b, of q] assms(3) have 1: "fs st2 q = fs st q" by simp
  have 2: "fs (snd (write_text p c st2)) q = fs st q" for c
    using write_text_other [OF prod.collapse [symmetric] assms(2), of c st2] 1 by simp
  from assms(1,2) b 1 2 show ?thesis
    unfolding fix_vehicle_file_def Let_def
    by (auto split: sum.splits prod.splits option.splits if_splits dest!: arg_cong [where f = snd])
qed

lemma fix_multirotor_existing:
  assumes "fix_multirotor_file p st = (e, st')" "q \<noteq> p" "fs st q \<noteq> None"
  shows "fs st' q = fs st q"
proof -
  let ?st1 = "print (FixProcessing p) st"
  obtain e2 st2 where b: "ardupilot_backup p ?st1 = (e2, st2)" by (cases "ardupilot_backup p ?st1")
  from ardupilot_backup_existing [OF b, of q] assms(3) have 1: "fs st2 q = fs st q" by simp
  have 2: "fs (snd (write_text p c st2)) q = fs st q" for c
    using write_text_other [OF prod.collapse [symmetric] assms(2), of c st2] 1 by simp
  from assms(1,2) b 1 2 show ?thesis
    unfolding fix_multirotor_file_def Let_def
    by (auto split: sum.splits prod.splits option.splits if_splits dest!: arg_cong [where f = snd])
qed

lemma migrate_python_other:
  assumes "migrate_python_file_with rules p st = (e, st')"
      and "with_suffix p (path_suffix p @ ''.bak'') = Inr bp" "q \<noteq> bp" "q \<noteq> p"
  shows "fs st' q = fs st q"
proof -
  have *: "fs (snd (write_if_changed p c0 c ch s)) q = fs s q" for c0 c ch s
    using write_if_changed_other [OF prod.collapse [symmetric] assms(2-4)] .
  from assms(1) show ?thesis
    unfolding migrate_python_file_with_def Let_def
    by (auto split: sum.splits prod.splits if_splits simp: * [simplified] dest!: arg_cong [where f = snd])
qed

lemma migrate_toml_other:
  assumes "migrate_toml_file_with rules p st = (e, st')"
      and "with_suffix p (path_suffix p @ ''.bak'') = Inr bp" "q \<noteq> bp" "q \<noteq> p"
  shows "fs st' q = fs st q"
proof -
  have *: "fs (snd (write_if_changed p c0 c ch s)) q = fs s q" for c0 c ch s
    using write_if_changed_other [OF prod.collapse [symmetric] assms(2-4)] .
  from assms(1) show ?thesis
    unfolding migrate_toml_file_with_def Let_def
    by (auto split: sum.splits prod.splits if_splits simp: * [simplified] dest!: arg_cong [where f = snd])
qed

lemma migrate_python_dry:
  "dry_run st \<Longrightarrow> fs (snd (migrate_python_file_with rules p st)) = fs st"
  unfolding migrate_python_file_with_def Let_def
  by (auto split: sum.splits prod.splits simp: write_if_changed_def)

lemma migrate_toml_dry:
  "dry_run st \<Longrightarrow> fs (snd (migrate_toml_file_with rules p st)) = fs st"
  unfolding migrate_toml_file_with_def Let_def
  by (auto split: sum.splits prod.splits simp: write_if_changed_def)

lemma process_files_dry:
  assumes "\<And>p st. dry_run st \<Longrightarrow> fs (snd (migrate p st)) = fs st \<and> dry_run (snd (migrate p st))"
  shows "dry_run st \<Longrightarrow> fs (snd (process_files migrate files st)) = fs st \<and>
           dry_run (snd (process_files migrate files st))"
proof (induction files arbitrary: st)
  case Nil
  then show ?case by simp
next
  case (Cons f files)
  let ?p = "joinpath (root_path st) f"
  show ?case
  proof (cases "path_exists st ?p")
    case False
    with Cons.IH [of "print (FileNotFound f) st"] Cons.prems show ?thesis by simp
  next
    case True
    obtain e1 st1 where m: "migrate ?p st = (e1, st1)" by (cases "migrate ?p st")
    from assms [OF Cons.prems, of ?p] m have 1: "fs st1 = fs st" "dry_run st1" by simp_all
    show ?thesis
    proof (cases e1)
      case None
      with Cons.IH [OF 1(2)] 1 m True show ?thesis by simp
    next
      case (Some x)
      with 1 m True show ?thesis by simp
    qed
  qed
qed

lemma migrate_python_dry_keeps:
  "dry_run st \<Longrightarrow> fs (snd (migrate_python_file_with rules p st)) = fs st \<and>
     dry_run (snd (migrate_python_file_with rules p st))"
  using migrate_python_dry [of st rules p]
        migrate_python_file_with_frame [OF prod.collapse [symmetric], of rules p st]
  by (auto dest: settings_eqD)

lemma migrate_toml_dry_keeps:
  "dry_run st \<Longrightarrow> fs (snd (migrate_toml_file_with rules p st)) = fs st \<and>
     dry_run (snd (migrate_toml_file_with rules p st))"
  using migrate_toml_dry [of st rules p]
        migrate_toml_file_with_frame [OF prod.collapse [symmetric], of rules p st]
  by (auto dest: settings_eqD)

lemma run_migration_dry:
  assumes "dry_run st"
  shows "fs (snd (run_migration_with pr tr pf tf st)) = fs st"
proof -
  let ?st0 = "print (Header (root_path st) (dry_run st) (no_backup st)) st"
  obtain e1 st1 where p: "process_files (migrate_python_file_with pr) pf ?st0 = (e1, st1)"
    by (cases "process_files (migrate_python_file_with pr) pf ?st0")
  obtain e2 st2 where t: "process_files (migrate_toml_file_with tr) tf st1 = (e2, st2)"
    by (cases "process_files (migrate_toml_file_with tr) tf st1")
  obtain e3 st3 where s: "summary st2 = (e3, st3)" by (cases "summary st2")
  from process_files_dry [of "migrate_python_file_with pr" ?st0 pf] migrate_python_dry_keeps assms p
  have 1: "fs st1 = fs st" "dry_run st1" by simp_all
  from process_files_dry [of "migrate_toml_file_with tr" st1 tf] migrate_toml_dry_keeps 1 t
  have 2: "fs st2 = fs st" by simp
  from summary_frame [OF s] 2 have 3: "fs st3 = fs st" by simp
  from p t s 1 2 3 show ?thesis
    by (cases e1; cases e2) (simp_all add: run_migration_with_def)
qed

section \<open>The attention check\<close>

lemma py_in_iff: "py_in needle hay \<longleftrightarrow> (\<exists>u v. hay = u @ needle @ v)"
proof (induction hay)
  case Nil
  then show ?case by auto
next
  case (Cons c cs)
  show ?case
  proof
    assume "py_in needle (c # cs)"
    then consider "prefix needle (c # cs)" | "py_in needle cs" by auto
    then show "\<exists>u v. c # cs = u @ needle @ v"
    proof cases
      case 1
      then obtain v where "c # cs = needle @ v" unfolding prefix_def by blast
      then have "c # cs = [] @ needle @ v" by simp
      then show ?thesis by blast
    next
      case 2
      with Cons.IH obtain u v where "cs = u @ needle @ v" by blast
      then have "c # cs = (c # u) @ needle @ v" by simp
      then show ?thesis by blast
    qed
  next
    assume "\<exists>u v. c # cs = u @ needle @ v"
    then obtain u v where uv: "c # cs = u @ needle @ v" by blast
    show "py_in needle (c # cs)"
    proof (cases u)
      case Nil
      with uv have "prefix needle (c # cs)" unfolding prefix_def by simp
      then show ?thesis by simp
    next
      case (Cons x u')
      with uv have "cs = u' @ needle @ v" by simp
      with Cons.IH have "py_in needle cs" by blast
      then show ?thesis by simp
    qed
  qed
qed

lemma lower_ArduPilot: "lower ''ArduPilot'' = ''ardupilot''"
  by code_simp

lemma map_eq_three:
  assumes "map f xs = a @ b @ c"
  shows "\<exists>u w v. xs = u @ w @ v \<and> map f w = b"
proof -
  from assms obtain u r where 1: "xs = u @ r" "map f r = b @ c"
    by (metis map_eq_append_conv)
  then obtain w v where "r = w @ v" "map f w = b"
    by (metis map_eq_append_conv)
  with 1 show ?thesis by blast
qed

lemma has_ardupilot_iff:
  "has_ardupilot content \<longleftrightarrow> (\<exists>u w v. content = u @ w @ v \<and> lower w = ''ardupilot'')"
proof
  assume "has_ardupilot content"
  then consider "py_in ''ardupilot'' (lower content)" | "py_in ''ArduPilot'' content"
    unfolding has_ardupilot_def by blast
  then show "\<exists>u w v. content = u @ w @ v \<and> lower w = ''ardupilot''"
  proof cases
    case 1
    then obtain u' v' where "map lower_char content = u' @ ''ardupilot'' @ v'"
      unfolding py_in_iff lower_def by blast
    from map_eq_three [OF this] show ?thesis unfolding lower_def .
  next
    case 2
    then obtain u v where "content = u @ ''ArduPilot'' @ v" unfolding py_in_iff by blast
    with lower_ArduPilot show ?thesis by blast
  qed
next
  assume "\<exists>u w v. content = u @ w @ v \<and> lower w = ''ardupilot''"
  then obtain u w v where c: "content = u @ w @ v" and w: "lower w = ''ardupilot''" by blast
  have "lower content = lower u @ lower w @ lower v" unfolding c lower_def by simp
  then have "lower content = lower u @ ''ardupilot'' @ lower v" unfolding w .
  then have "py_in ''ardupilot'' (lower content)" unfolding py_in_iff by blast
  then show "has_ardupilot content" unfolding has_ardupilot_def by blast
qed

section \<open>The loops over the files\<close>




lemma apply_replacements_ok:
  "rules_compile rules \<Longrightarrow> \<exists>c ch. apply_replacements left rules content changes = Inr (c, ch)"
proof (induction rules arbitrary: content changes)
  case Nil
  then show ?case by simp
next
  case (Cons r rules)
  obtain old new where r: "r = (old, new)" by (cases r)
  from Cons.prems r obtain ps where c: "re_compile False old = Inr ps" "CHR 0x5C \<notin> set new"
    and rest: "rules_compile rules"
    by (cases "re_compile False old") (auto simp: rules_compile_def)
  from Cons.IH [OF rest] c r show ?case
    by (simp add: re_findall_def re_sub_def)
qed

lemma apply_replacements_not_Inl:
  "rules_compile rules \<Longrightarrow> apply_replacements left rules content changes \<noteq> Inl e"
  using apply_replacements_ok [of rules left content changes] by auto










section \<open>Matches and the text between them\<close>

lemma matchp_suffix: "matchp ps s adv = Some r \<Longrightarrow> \<exists>u. s = u @ r"
proof (induction ps s adv arbitrary: r rule: matchp.induct)
  case (3 a ps c cs adv)
  then obtain u where "cs = u @ r" by (auto split: if_splits)
  then have "c # cs = (c # u) @ r" by simp
  then show ?case by blast
next
  case (5 a ps c cs adv)
  show ?case
  proof (cases "accepts a c \<and> matchp (Star a # ps) cs False \<noteq> None")
    case True
    with 5 obtain u where "cs = u @ r" by (auto split: if_splits option.splits)
    then have "c # cs = (c # u) @ r" by simp
    then show ?thesis by blast
  next
    case False
    with 5 show ?thesis by (auto split: if_splits option.splits)
  qed
next
  case (7 a ps c cs adv)
  show ?case
  proof (cases "matchp ps (c # cs) adv")
    case None
    with 7 obtain u where "cs = u @ r" by (auto split: if_splits option.splits)
    then have "c # cs = (c # u) @ r" by simp
    then show ?thesis by blast
  next
    case (Some a)
    with 7 show ?thesis by auto
  qed
qed (auto split: if_splits)

lemma matchp_take:
  assumes "matchp ps s adv = Some r"
  shows "take (length s - length r) s @ r = s"
proof -
  from matchp_suffix [OF assms] obtain u where "s = u @ r" by blast
  then show ?thesis by simp
qed

lemma split_from_length:
  "length (split_from ps s adv) = Suc (length (findall_from ps s adv))"
proof (induction ps s adv rule: findall_from.induct)
  case (1 ps s adv)
  show ?case
  proof (cases "matchp ps s adv")
    case (Some r)
    with 1(2) [OF Some] show ?thesis
      by (subst split_from.simps, subst findall_from.simps) simp
  next
    case None
    show ?thesis
    proof (cases s)
      case Nil
      with None show ?thesis
        by (subst split_from.simps, subst findall_from.simps) simp
    next
      case (Cons c cs)
      from 1(1) [OF None Cons] obtain g gs where
        g: "split_from ps cs False = g # gs" "length gs = length (findall_from ps cs False)"
        by (cases "split_from ps cs False") auto
      with None Cons show ?thesis
        by (subst split_from.simps, subst findall_from.simps) simp
    qed
  qed
qed

lemma weave_cons_gap: "weave ((c # g) # gs) ms = c # weave (g # gs) ms"
  by (cases ms) simp_all

lemma weave_split_findall:
  "weave (split_from ps s adv) (findall_from ps s adv) = s"
proof (induction ps s adv rule: findall_from.induct)
  case (1 ps s adv)
  show ?case
  proof (cases "matchp ps s adv")
    case (Some r)
    with 1(2) [OF Some] matchp_take [OF Some] show ?thesis
      by (subst split_from.simps, subst findall_from.simps) simp
  next
    case None
    show ?thesis
    proof (cases s)
      case Nil
      with None show ?thesis
        by (subst split_from.simps, subst findall_from.simps) simp
    next
      case (Cons c cs)
      from split_from_length [of ps cs False] obtain g gs where
        g: "split_from ps cs False = g # gs" by (cases "split_from ps cs False") auto
      with None Cons 1(1) [OF None Cons] show ?thesis
        by (subst split_from.simps, subst findall_from.simps) (simp add: weave_cons_gap)
    qed
  qed
qed

lemma weave_split_sub:
  "weave (split_from ps s adv) (replicate (length (findall_from ps s adv)) repl)
     = sub_from ps repl s adv"
proof (induction ps s adv rule: findall_from.induct)
  case (1 ps s adv)
  show ?case
  proof (cases "matchp ps s adv")
    case (Some r)
    with 1(2) [OF Some] show ?thesis
      by (subst split_from.simps, subst findall_from.simps, subst sub_from.simps) simp
  next
    case None
    show ?thesis
    proof (cases s)
      case Nil
      with None show ?thesis
        by (subst split_from.simps, subst findall_from.simps, subst sub_from.simps) simp
    next
      case (Cons c cs)
      from split_from_length [of ps cs False] obtain g gs where
        g: "split_from ps cs False = g # gs" by (cases "split_from ps cs False") auto
      with None Cons 1(1) [OF None Cons] show ?thesis
        by (subst split_from.simps, subst findall_from.simps, subst sub_from.simps)
           (simp add: weave_cons_gap)
    qed
  qed
qed

lemma first_gap_no_match:
  "k < length (hd (split_from ps s adv)) \<Longrightarrow>
     matchp ps (drop k s) (adv \<and> k = 0) = None"
proof (induction ps s adv arbitrary: k rule: findall_from.induct)
  case (1 ps s adv)
  show ?case
  proof (cases "matchp ps s adv")
    case (Some r)
    with 1(3) show ?thesis by (subst (asm) split_from.simps) simp
  next
    case None
    show ?thesis
    proof (cases s)
      case Nil
      with None 1(3) show ?thesis by (subst (asm) split_from.simps) simp
    next
      case (Cons c cs)
      from split_from_length [of ps cs False] obtain g gs where
        g: "split_from ps cs False = g # gs" by (cases "split_from ps cs False") auto
      show ?thesis
      proof (cases k)
        case 0
        with None show ?thesis by (cases adv) simp_all
      next
        case (Suc j)
        with 1(3) None Cons g have "j < length (hd (split_from ps cs False))"
          by (subst (asm) split_from.simps) simp
        from 1(1) [OF None Cons this] Suc Cons show ?thesis by simp
      qed
    qed
  qed
qed

section \<open>The replacement loop\<close>

lemma apply_replacements_append:
  "apply_replacements left (xs @ ys) content changes =
     (case apply_replacements left xs content changes of
        Inl e \<Rightarrow> Inl e
      | Inr (content', changes') \<Rightarrow> apply_replacements left ys content' changes')"
proof (induction xs arbitrary: content changes)
  case Nil
  then show ?case by simp
next
  case (Cons r xs)
  obtain old new where r: "r = (old, new)" by (cases r)
  show ?case unfolding r
    by (simp add: Cons.IH split: sum.splits)
qed

lemma apply_replacements_content:
  "map_sum (\<lambda>e. e) fst (apply_replacements left rules content changes) =
   map_sum (\<lambda>e. e) fst (apply_replacements left' rules content changes')"
proof (induction rules arbitrary: content changes changes')
  case Nil
  then show ?case by simp
next
  case (Cons r rules)
  obtain old new where r: "r = (old, new)" by (cases r)
  show ?case unfolding r
    using Cons.IH by (auto split: sum.splits)
qed

lemma apply_replacements_malformed:
  assumes "re_compile False old_pattern = Inl e"
      and "apply_replacements left earlier content [] = Inr (content1, changes1)"
  shows "apply_replacements left' (earlier @ (old_pattern, new_pattern) # later) content [] = Inl e"
proof -
  from apply_replacements_content [of left earlier content "[]" left' "[]"] assms(2)
  obtain changes2 where "apply_replacements left' earlier content [] = Inr (content1, changes2)"
    by (cases "apply_replacements left' earlier content []") auto
  with assms(1) show ?thesis
    by (simp add: apply_replacements_append re_findall_def)
qed

section \<open>What a matching rule replaces and records\<close>

text \<open>
  When a rule matches, \<^verbatim>\<open>re.sub\<close> replaces every match that \<^verbatim>\<open>re.findall\<close> returns: the
  content is the unmatched pieces interleaved with the matches, the new content the same
  pieces interleaved with the replacement, and no match starts before the first one. The
  loop of \<^verbatim>\<open>migrate_python_file\<close> appends that first match, with the replacement, to
  \<^verbatim>\<open>changes\<close>.
\<close>

lemma all_matches_replaced:
  assumes "re_compile False old_pattern = Inr ps"
      and "CHR 0x5C \<notin> set new_pattern"
      and "findall_from ps content False = m # ms"
  shows "length (split_from ps content False) = Suc (Suc (length ms)) \<and>
         content = weave (split_from ps content False) (m # ms) \<and>
         (\<forall>k < length (hd (split_from ps content False)).
             matchp ps (drop k content) False = None) \<and>
         re_sub False old_pattern new_pattern content =
           Inr (weave (split_from ps content False) (replicate (Suc (length ms)) new_pattern)) \<and>
         apply_replacements python_left ((old_pattern, new_pattern) # rest) content changes =
           apply_replacements python_left rest
             (weave (split_from ps content False) (replicate (Suc (length ms)) new_pattern))
             (changes @ [(m, new_pattern)])"
proof -
  have len: "length (split_from ps content False) = Suc (Suc (length ms))"
    using split_from_length [of ps content False] assms(3) by simp
  have w: "content = weave (split_from ps content False) (m # ms)"
    using weave_split_findall [of ps content False] assms(3) by simp
  have g: "\<forall>k < length (hd (split_from ps content False)). matchp ps (drop k content) False = None"
    using first_gap_no_match [of _ ps content False] by simp
  have s: "sub_from ps new_pattern content False =
             weave (split_from ps content False) (replicate (Suc (length ms)) new_pattern)"
    using weave_split_sub [of ps content False new_pattern] assms(3) by simp
  have r: "re_sub False old_pattern new_pattern content =
             Inr (weave (split_from ps content False) (replicate (Suc (length ms)) new_pattern))"
    using assms(1,2) s by (simp add: re_sub_def)
  have f: "re_findall old_pattern content = Inr (m # ms)"
    using assms(1,3) by (simp add: re_findall_def)
  from len w g r f show ?thesis
    by (simp add: python_left_def)
qed

section \<open>Idempotence of a rule list\<close>

lemma lit_reject_None: "lit_reject ps u \<Longrightarrow> matchp ps (u @ w) adv = None"
  by (induction ps u arbitrary: adv rule: lit_reject.induct) (auto split: if_splits)

lemma rejects_inside_nomatch:
  "rejects_inside ps u \<Longrightarrow> nomatch ps t \<Longrightarrow> nomatch ps (u @ t)"
  by (induction u) (auto simp: lit_reject_None [of ps "c # cs" for c cs, simplified])

lemma nomatch_suffix: "nomatch ps (u @ t) \<Longrightarrow> nomatch ps t"
  by (induction u) auto

lemma findall_empty_sub: "findall_from ps s adv = [] \<Longrightarrow> sub_from ps repl s adv = s"
proof (induction ps s adv rule: findall_from.induct)
  case (1 ps s adv)
  show ?case
  proof (cases "matchp ps s adv")
    case (Some r)
    with 1(3) show ?thesis by (subst (asm) findall_from.simps) simp
  next
    case None
    show ?thesis
    proof (cases s)
      case Nil
      with None show ?thesis by (subst sub_from.simps) simp
    next
      case (Cons c cs)
      with None 1(3) have "findall_from ps cs False = []"
        by (subst (asm) findall_from.simps) simp
      from 1(1) [OF None Cons this] None Cons show ?thesis
        by (subst sub_from.simps) simp
    qed
  qed
qed

lemma nomatch_findall: "nomatch ps s \<Longrightarrow> findall_from ps s False = []"
proof (induction s)
  case Nil
  then show ?case by (subst findall_from.simps) simp
next
  case (Cons c cs)
  then show ?case by (subst findall_from.simps) simp
qed

lemma sub_from_nil: "sub_from (One a # ps) repl [] False = []"
  by (subst sub_from.simps) simp

lemma sub_from_cons:
  "sub_from (One a # ps) repl (c # cs) False =
     (case matchp (One a # ps) (c # cs) False of
        Some r \<Rightarrow> repl @ sub_from (One a # ps) repl r False
      | None \<Rightarrow> c # sub_from (One a # ps) repl cs False)"
proof (cases "matchp (One a # ps) (c # cs) False")
  case None
  then show ?thesis by (subst sub_from.simps) simp
next
  case (Some r)
  then have "matchp ps cs False = Some r" by (simp split: if_splits)
  from matchp_rest [OF this] have "length r \<noteq> length (c # cs)" by simp
  with Some show ?thesis by (subst sub_from.simps) simp
qed

lemma sub_from_head:
  assumes "s = c # cs"
  shows "(matchp (One a0 # prest) s False = None \<and>
            sub_from (One a0 # prest) (x # repl') s False
              = c # sub_from (One a0 # prest) (x # repl') cs False) \<or>
         (\<exists>r. sub_from (One a0 # prest) (x # repl') s False
              = x # repl' @ sub_from (One a0 # prest) (x # repl') r False)"
proof (cases "matchp (One a0 # prest) (c # cs) False")
  case None
  then show ?thesis unfolding assms sub_from_cons by simp
next
  case (Some r)
  then have "sub_from (One a0 # prest) (x # repl') (c # cs) False
               = x # repl' @ sub_from (One a0 # prest) (x # repl') r False"
    unfolding sub_from_cons by simp
  then show ?thesis unfolding assms by blast
qed

lemma pull_back:
  assumes "pulls_back x repl' ps"
  shows "matchp ps (sub_from (One a0 # prest) (x # repl') s False) adv \<noteq> None \<Longrightarrow>
           matchp ps s adv \<noteq> None"
  using assms
proof (induction ps s adv rule: matchp.induct)
  case (1 s adv)
  then show ?case by (simp split: if_splits)
next
  case (2 a ps adv)
  then show ?case by (simp add: sub_from_nil)
next
  case (3 a ps c cs adv)
  let ?S = "\<lambda>s. sub_from (One a0 # prest) (x # repl') s False"
  from sub_from_head [OF refl, of a0 prest c cs x repl']
  consider (step) "?S (c # cs) = c # ?S cs"
    | (repl) r where "?S (c # cs) = x # repl' @ ?S r" by blast
  then show ?case
  proof cases
    case step
    with 3(2) have a: "accepts a c" and m: "matchp ps (?S cs) False \<noteq> None"
      by (auto split: if_splits)
    from 3(3) have "pulls_back x repl' ps" by simp
    from 3(1) [OF a m this] a show ?thesis by simp
  next
    case repl
    with 3(2) have a: "accepts a x" and m: "matchp ps (repl' @ ?S r) False \<noteq> None"
      by (auto split: if_splits)
    from 3(3) a have "lit_reject ps repl'" by simp
    from lit_reject_None [OF this] m show ?thesis by simp
  qed
next
  case (4 a ps adv)
  then show ?case by (simp add: sub_from_nil split: if_splits)
next
  case (5 a ps c cs adv)
  let ?S = "\<lambda>s. sub_from (One a0 # prest) (x # repl') s False"
  from 5(5) have nx: "\<not> accepts a x" and pb: "pulls_back x repl' ps"
    by (auto split: if_splits)
  from 5(5) have pbs: "pulls_back x repl' (Star a # ps)" .
  have alt: "(accepts a c \<and> matchp (Star a # ps) (?S cs) False \<noteq> None) \<or>
             matchp ps (?S (c # cs)) adv \<noteq> None"
    using sub_from_head [OF refl, of a0 prest c cs x repl'] 5(4) nx
    by (auto split: if_splits option.splits)
  show ?case
  proof (cases "accepts a c")
    case True
    show ?thesis
    proof (cases "matchp (Star a # ps) cs False")
      case (Some r)
      with True show ?thesis by simp
    next
      case None
      with alt 5(1) [OF True _ pbs] have "matchp ps (?S (c # cs)) adv \<noteq> None" by blast
      from 5(2) [OF True None this pb] True None show ?thesis by simp
    qed
  next
    case False
    with alt have "matchp ps (?S (c # cs)) adv \<noteq> None" by blast
    from 5(3) [OF False this pb] False show ?thesis by simp
  qed
next
  case (6 a ps adv)
  then show ?case by (simp add: sub_from_nil split: if_splits)
next
  case (7 a ps c cs adv)
  let ?S = "\<lambda>s. sub_from (One a0 # prest) (x # repl') s False"
  from 7(4) have nx: "\<not> accepts a x" and pb: "pulls_back x repl' ps"
    by (auto split: if_splits)
  from 7(4) have pbs: "pulls_back x repl' (LazyStar a # ps)" .
  have alt: "matchp ps (?S (c # cs)) adv \<noteq> None \<or>
             (accepts a c \<and> matchp (LazyStar a # ps) (?S cs) False \<noteq> None)"
    using sub_from_head [OF refl, of a0 prest c cs x repl'] 7(3) nx
    by (auto split: if_splits option.splits)
  show ?case
  proof (cases "matchp ps (c # cs) adv")
    case (Some r)
    then show ?thesis by simp
  next
    case None
    with 7(1) [OF _ pb] alt
    have a: "accepts a c" and m: "matchp (LazyStar a # ps) (?S cs) False \<noteq> None" by auto
    from 7(2) [OF None a m pbs] None a show ?thesis by simp
  qed
qed

lemma nomatch_sub:
  assumes "pulls_back x repl' qs" "rejects_inside qs (x # repl')"
      and "qs = One a0 # prest \<or> nomatch qs s"
  shows "nomatch qs (sub_from (One a0 # prest) (x # repl') s False)"
  using assms(3)
proof (induction s rule: length_induct)
  case (1 s)
  let ?S = "\<lambda>s. sub_from (One a0 # prest) (x # repl') s False"
  show ?case
  proof (cases s)
    case Nil
    with 1(2) show ?thesis by (auto simp: sub_from_nil)
  next
    case (Cons c cs)
    show ?thesis
    proof (cases "matchp (One a0 # prest) (c # cs) False")
      case (Some r)
      from matchp_suffix [OF Some] obtain u where u: "c # cs = u @ r" by blast
      from matchp_rest [OF Some] Some have "length r < length s"
        unfolding Cons by (auto split: if_splits dest: matchp_rest)
      moreover from 1(2) u have "qs = One a0 # prest \<or> nomatch qs r"
        unfolding Cons by (metis nomatch_suffix)
      ultimately have "nomatch qs (?S r)" using 1(1) by blast
      from rejects_inside_nomatch [OF assms(2) this] Some show ?thesis
        unfolding Cons sub_from_cons by simp
    next
      case None
      have "length cs < length s" unfolding Cons by simp
      moreover from 1(2) have "qs = One a0 # prest \<or> nomatch qs cs" unfolding Cons by auto
      ultimately have tl: "nomatch qs (?S cs)" using 1(1) by blast
      have S: "?S (c # cs) = c # ?S cs" using None unfolding sub_from_cons by simp
      have "matchp qs (c # cs) False = None" using 1(2) None unfolding Cons by auto
      with pull_back [OF assms(1), of a0 prest "c # cs" False]
      have "matchp qs (?S (c # cs)) False = None" by blast
      with tl S show ?thesis unfolding Cons by simp
    qed
  qed
qed

lemma stable_compile: "stable rules \<Longrightarrow> rules_compile rules"
proof (induction rules)
  case Nil
  then show ?case by (simp add: rules_compile_def)
next
  case (Cons r rules)
  obtain old new where r: "r = (old, new)" by (cases r)
  from Cons show ?case unfolding r
    by (auto simp: rules_compile_def split: sum.splits)
qed

lemma apply_replacements_rewrite:
  "rules_compile rules \<Longrightarrow>
     \<exists>ch. apply_replacements left rules content changes = Inr (rewrite rules content, ch)"
proof (induction rules arbitrary: content changes)
  case Nil
  then show ?case by simp
next
  case (Cons r rules)
  obtain old new where r: "r = (old, new)" by (cases r)
  from Cons.prems r obtain ps where c: "re_compile False old = Inr ps" "CHR 0x5C \<notin> set new"
    and rest: "rules_compile rules"
    by (cases "re_compile False old") (auto simp: rules_compile_def)
  show ?case
  proof (cases "findall_from ps content False = []")
    case True
    from findall_empty_sub [OF True] have "sub_from ps new content False = content" .
    with True c Cons.IH [OF rest, of content changes] show ?thesis
      unfolding r by (simp add: re_findall_def)
  next
    case False
    with c Cons.IH [OF rest] show ?thesis
      unfolding r by (simp add: re_findall_def re_sub_def)
  qed
qed

lemma nomatch_rewrite:
  assumes "stable rules" "list_all (\<lambda>(old', new'). fits qs new') rules" "nomatch qs content"
  shows "nomatch qs (rewrite rules content)"
  using assms
proof (induction rules arbitrary: content)
  case Nil
  then show ?case by simp
next
  case (Cons r rules)
  obtain old new where r: "r = (old, new)" by (cases r)
  from Cons.prems(1) r obtain ps where c: "re_compile False old = Inr ps"
    and so: "starts_one ps" and st: "stable rules"
    by (cases "re_compile False old") auto
  from so obtain a0 prest where ps: "ps = One a0 # prest"
    by (auto simp: starts_one_def split: list.splits piece.splits)
  from Cons.prems(2) r obtain x repl' where n: "new = x # repl'"
    and f: "pulls_back x repl' qs" "rejects_inside qs (x # repl')"
    and fr: "list_all (\<lambda>(old', new'). fits qs new') rules"
    by (cases new) (auto simp: fits_def)
  from nomatch_sub [OF f, of a0 prest content] Cons.prems(3)
  have "nomatch qs (sub_from ps new content False)" unfolding ps n by simp
  from Cons.IH [OF st fr this] c show ?case unfolding r by simp
qed

lemma stable_nomatch:
  assumes "stable rules" "(old_pattern, new_pattern) \<in> set rules"
      and "re_compile False old_pattern = Inr qs"
  shows "nomatch qs (rewrite rules content)"
  using assms
proof (induction rules arbitrary: content)
  case Nil
  then show ?case by simp
next
  case (Cons r rules)
  obtain old new where r: "r = (old, new)" by (cases r)
  from Cons.prems(1) r obtain ps where c: "re_compile False old = Inr ps"
    and so: "starts_one ps" and st: "stable rules"
    and fs: "fits ps new" "list_all (\<lambda>(old', new'). fits ps new') rules"
    by (cases "re_compile False old") auto
  show ?case
  proof (cases "(old_pattern, new_pattern) \<in> set rules")
    case True
    from Cons.IH [OF st True Cons.prems(3)] c show ?thesis unfolding r by simp
  next
    case False
    with Cons.prems(2) r have eq: "old = old_pattern" "new = new_pattern" by auto
    with c Cons.prems(3) have q: "qs = ps" by simp
    from so obtain a0 prest where ps: "ps = One a0 # prest"
      by (auto simp: starts_one_def split: list.splits piece.splits)
    from fs(1) obtain x repl' where n: "new = x # repl'"
      and f: "pulls_back x repl' ps" "rejects_inside ps (x # repl')"
      by (cases new) (auto simp: fits_def)
    have "nomatch ps (sub_from ps new content False)"
      using nomatch_sub [OF f, of a0 prest content] unfolding ps n by simp
    from nomatch_rewrite [OF st fs(2) this] c show ?thesis unfolding r q by simp
  qed
qed

lemma apply_replacements_settled:
  assumes "\<forall>(old, new) \<in> set rules. \<exists>ps. re_compile False old = Inr ps \<and> nomatch ps content"
  shows "apply_replacements left rules content changes = Inr (content, changes)"
  using assms
proof (induction rules)
  case Nil
  then show ?case by simp
next
  case (Cons r rules)
  obtain old new where r: "r = (old, new)" by (cases r)
  from Cons.prems r obtain ps where "re_compile False old = Inr ps" "nomatch ps content" by auto
  with Cons r nomatch_findall [of ps content] show ?case
    by (simp add: re_findall_def)
qed

lemma stable_settled:
  assumes "stable rules"
  shows "apply_replacements left rules (rewrite rules content) changes
           = Inr (rewrite rules content, changes)"
proof (rule apply_replacements_settled, clarify)
  fix old new
  assume m: "(old, new) \<in> set rules"
  from stable_compile [OF assms] m obtain ps where c: "re_compile False old = Inr ps"
    by (cases "re_compile False old") (auto simp: rules_compile_def list_all_iff)
  from stable_nomatch [OF assms m c] c
  show "\<exists>ps. re_compile False old = Inr ps \<and> nomatch ps (rewrite rules content)" by blast
qed

lemma stable_idempotent:
  assumes "stable rules" "apply_replacements left rules content changes = Inr (content1, changes1)"
  shows "apply_replacements left' rules content1 changes' = Inr (content1, changes')"
proof -
  from apply_replacements_rewrite [OF stable_compile [OF assms(1)], of left content changes] assms(2)
  have "content1 = rewrite rules content" by auto
  with stable_settled [OF assms(1)] show ?thesis by simp
qed

lemma script_no_alias: "no_alias (FILES_TO_MIGRATE_python @ FILES_TO_MIGRATE_toml)"
  by code_simp

lemma settled_rewrite: "stable rules \<Longrightarrow> settled rules (rewrite rules content)"
  unfolding settled_def list_all_iff
proof clarify
  fix old new
  assume s: "stable rules" and m: "(old, new) \<in> set rules"
  from stable_compile [OF s] m obtain ps where c: "re_compile False old = Inr ps"
    by (cases "re_compile False old") (auto simp: rules_compile_def list_all_iff)
  from stable_nomatch [OF s m c] c
  show "case re_compile False old of Inl e \<Rightarrow> False | Inr ps \<Rightarrow> nomatch ps (rewrite rules content)"
    by simp
qed

lemma settled_apply:
  "settled rules content \<Longrightarrow> apply_replacements left rules content changes = Inr (content, changes)"
  by (rule apply_replacements_settled) (auto simp: settled_def list_all_iff split: sum.splits)

lemma proper_joinpath:
  assumes "proper_file f"
  shows "path_name (joinpath root f) \<noteq> []" "CHR ''/'' \<notin> set (path_name (joinpath root f))"
        "with_suffix (joinpath root f) (path_suffix (joinpath root f) @ ''.bak'')
           = Inr (joinpath root (bak_rel f))"
proof -
  from assms have f: "f \<noteq> []" "last f \<noteq> []" "CHR ''/'' \<notin> set (last f)"
    by (auto simp: proper_file_def)
  then show n: "path_name (joinpath root f) \<noteq> []" "CHR ''/'' \<notin> set (path_name (joinpath root f))"
    by (auto simp: path_name_def joinpath_def)
  from f have "butlast (root @ f) = root @ butlast f" "path_name (root @ f) = last f"
    by (simp_all add: butlast_append path_name_def)
  with with_suffix_bak [OF n] show
    "with_suffix (joinpath root f) (path_suffix (joinpath root f) @ ''.bak'')
       = Inr (joinpath root (bak_rel f))"
    by (simp add: joinpath_def bak_rel_def)
qed

lemma stable_script_rules: "stable PYTHON_REPLACEMENTS" "stable TOML_REPLACEMENTS"
  by code_simp+

section \<open>A dry run beside a live run\<close>

lemma write_if_changed_dry_eq:
  assumes "dry_run st"
  shows "fst (write_if_changed p c0 c ch st) = None \<and>
         changes_made (snd (write_if_changed p c0 c ch st))
           = (if c \<noteq> c0 then changes_made st @ [p] else changes_made st) \<and>
         warnings (snd (write_if_changed p c0 c ch st)) = warnings st \<and>
         fs (snd (write_if_changed p c0 c ch st)) = fs st"
  using assms unfolding write_if_changed_def Let_def by simp

lemma migrate_python_sim:
  assumes "migrate_python_file_with rules p l = (None, l')"
      and "dry_run d" "root_path d = root_path l" "fs d p = fs l p"
      and "changes_made d = changes_made l" "warnings d = warnings l"
  shows "fst (migrate_python_file_with rules p d) = None \<and>
         changes_made (snd (migrate_python_file_with rules p d)) = changes_made l' \<and>
         warnings (snd (migrate_python_file_with rules p d)) = warnings l'"
proof -
  have rd: "read_text d p = read_text l p" using assms(4) by (simp add: read_text_def)
  from assms(1) obtain rel where rel: "relative_to p (root_path l) = Inr rel"
    by (cases "relative_to p (root_path l)") (auto simp: migrate_python_file_with_def)
  show ?thesis
  proof (cases "read_text l p")
    case (Inl e)
    with assms rel rd show ?thesis
      by (auto simp: migrate_python_file_with_def Let_def)
  next
    case (Inr c0)
    from assms(1) rel Inr obtain c ch where
      a: "apply_replacements python_left rules c0 [] = Inr (c, ch)"
      by (cases "apply_replacements python_left rules c0 []")
         (auto simp: migrate_python_file_with_def Let_def)
    let ?l2 = "if has_ardupilot c
               then (print (Processing rel) l)\<lparr>warnings := warnings l @ [p]\<rparr>
               else print (Processing rel) l"
    let ?d2 = "if has_ardupilot c
               then (print (Processing rel) d)\<lparr>warnings := warnings d @ [p]\<rparr>
               else print (Processing rel) d"
    from assms(1) rel Inr a have w: "write_if_changed p c0 c ch ?l2 = (None, l')"
      by (simp add: migrate_python_file_with_def Let_def split: if_splits)
    from write_if_changed_report [OF w refl] write_if_changed_frame [OF w]
    have l': "changes_made l' = (if c \<noteq> c0 then changes_made l @ [p] else changes_made l)"
             "warnings l' = warnings ?l2" by (auto split: if_splits)
    have dd: "dry_run ?d2" using assms(2) by simp
    have m: "migrate_python_file_with rules p d = write_if_changed p c0 c ch ?d2"
      using rel Inr a rd assms(3)
      by (simp add: migrate_python_file_with_def Let_def)
    from write_if_changed_dry_eq [OF dd, of p c0 c ch] l' assms(5,6) show ?thesis
      unfolding m by (auto split: if_splits)
  qed
qed

lemma migrate_toml_sim:
  assumes "migrate_toml_file_with rules p l = (None, l')"
      and "dry_run d" "root_path d = root_path l" "fs d p = fs l p"
      and "changes_made d = changes_made l" "warnings d = warnings l"
  shows "fst (migrate_toml_file_with rules p d) = None \<and>
         changes_made (snd (migrate_toml_file_with rules p d)) = changes_made l' \<and>
         warnings (snd (migrate_toml_file_with rules p d)) = warnings l'"
proof -
  have rd: "read_text d p = read_text l p" using assms(4) by (simp add: read_text_def)
  from assms(1) obtain rel where rel: "relative_to p (root_path l) = Inr rel"
    by (cases "relative_to p (root_path l)") (auto simp: migrate_toml_file_with_def)
  show ?thesis
  proof (cases "read_text l p")
    case (Inl e)
    with assms rel rd show ?thesis
      by (auto simp: migrate_toml_file_with_def Let_def)
  next
    case (Inr c0)
    from assms(1) rel Inr obtain c ch where
      a: "apply_replacements toml_left rules c0 [] = Inr (c, ch)"
      by (cases "apply_replacements toml_left rules c0 []")
         (auto simp: migrate_toml_file_with_def Let_def)
    let ?l2 = "print (Processing rel) l"
    let ?d2 = "print (Processing rel) d"
    from assms(1) rel Inr a have w: "write_if_changed p c0 c ch ?l2 = (None, l')"
      by (simp add: migrate_toml_file_with_def Let_def)
    from write_if_changed_report [OF w refl] write_if_changed_frame [OF w]
    have l': "changes_made l' = (if c \<noteq> c0 then changes_made l @ [p] else changes_made l)"
             "warnings l' = warnings ?l2" by (auto split: if_splits)
    have dd: "dry_run ?d2" using assms(2) by simp
    have m: "migrate_toml_file_with rules p d = write_if_changed p c0 c ch ?d2"
      using rel Inr a rd assms(3)
      by (simp add: migrate_toml_file_with_def Let_def)
    from write_if_changed_dry_eq [OF dd, of p c0 c ch] l' assms(5,6) show ?thesis
      unfolding m by (auto split: if_splits)
  qed
qed

lemma process_files_sim:
  fixes migrate :: "path \<Rightarrow> state \<Rightarrow> result"
  assumes sim: "\<And>p l l' d. migrate p l = (None, l') \<Longrightarrow> dry_run d \<Longrightarrow> root_path d = root_path l \<Longrightarrow>
                  fs d p = fs l p \<Longrightarrow> changes_made d = changes_made l \<Longrightarrow> warnings d = warnings l \<Longrightarrow>
                  fst (migrate p d) = None \<and> changes_made (snd (migrate p d)) = changes_made l' \<and>
                  warnings (snd (migrate p d)) = warnings l'"
      and other: "\<And>p s e s' bp q. migrate p s = (e, s') \<Longrightarrow>
                  with_suffix p (path_suffix p @ ''.bak'') = Inr bp \<Longrightarrow> q \<noteq> bp \<Longrightarrow> q \<noteq> p \<Longrightarrow>
                  fs s' q = fs s q"
      and frame: "\<And>p s e s'. migrate p s = (e, s') \<Longrightarrow> settings s' = settings s"
      and dry: "\<And>p s. dry_run s \<Longrightarrow> fs (snd (migrate p s)) = fs s"
  shows "list_all proper_file files \<Longrightarrow> distinct files \<Longrightarrow> set files \<subseteq> A \<Longrightarrow>
         \<forall>f \<in> set files. bak_rel f \<notin> A \<Longrightarrow>
         process_files migrate files l = (None, l') \<Longrightarrow>
         dry_run d \<Longrightarrow> root_path d = root_path l \<Longrightarrow>
         changes_made d = changes_made l \<Longrightarrow> warnings d = warnings l \<Longrightarrow>
         \<forall>a \<in> A. fs d (joinpath (root_path l) a) = fs l (joinpath (root_path l) a) \<Longrightarrow>
         fst (process_files migrate files d) = None \<and>
         changes_made (snd (process_files migrate files d)) = changes_made l' \<and>
         warnings (snd (process_files migrate files d)) = warnings l' \<and>
         root_path (snd (process_files migrate files d)) = root_path l' \<and>
         root_path l' = root_path l \<and>
         dry_run (snd (process_files migrate files d)) \<and>
         (\<forall>a \<in> A - set files. fs (snd (process_files migrate files d)) (joinpath (root_path l) a)
                                = fs l' (joinpath (root_path l) a))"
proof (induction files arbitrary: l d A)
  case Nil
  then show ?case by simp
next
  case (Cons f files)
  let ?p = "joinpath (root_path l) f"
  from Cons.prems(3) have fA: "f \<in> A" by simp
  with Cons.prems(10) have agree_f: "fs d ?p = fs l ?p" by blast
  then have ex: "path_exists d ?p = path_exists l ?p" by (simp add: path_exists_def)
  from Cons.prems(1) have pf: "proper_file f" and pfs: "list_all proper_file files" by simp_all
  from Cons.prems(2) have nf: "f \<notin> set files" and dfs: "distinct files" by simp_all
  show ?case
  proof (cases "path_exists l ?p")
    case False
    let ?l1 = "print (FileNotFound f) l" and ?d1 = "print (FileNotFound f) d"
    from Cons.prems(5) False have r: "process_files migrate files ?l1 = (None, l')" by simp
    have "fst (process_files migrate files ?d1) = None \<and>
         changes_made (snd (process_files migrate files ?d1)) = changes_made l' \<and>
         warnings (snd (process_files migrate files ?d1)) = warnings l' \<and>
         root_path (snd (process_files migrate files ?d1)) = root_path l' \<and>
         root_path l' = root_path ?l1 \<and>
         dry_run (snd (process_files migrate files ?d1)) \<and>
         (\<forall>a \<in> A - set files. fs (snd (process_files migrate files ?d1)) (joinpath (root_path ?l1) a)
                                = fs l' (joinpath (root_path ?l1) a))"
      using Cons.prems(3,4,6-10)
      by (intro Cons.IH [OF pfs dfs _ _ r]) auto
    with False ex Cons.prems(7) show ?thesis by (simp add: Let_def)
  next
    case True
    obtain e1 l1 where m: "migrate ?p l = (e1, l1)" by (cases "migrate ?p l")
    with Cons.prems(5) True have e1: "e1 = None" and r: "process_files migrate files l1 = (None, l')"
      by (auto simp: Let_def split: option.splits)
    let ?d1 = "snd (migrate ?p d)"
    from sim [OF m [unfolded e1] Cons.prems(6,7) agree_f Cons.prems(8,9)]
    have s1: "fst (migrate ?p d) = None" "changes_made ?d1 = changes_made l1"
             "warnings ?d1 = warnings l1" by simp_all
    from frame [OF m] have rl: "root_path l1 = root_path l" by (auto dest!: settings_eqD)
    from frame [OF prod.collapse [symmetric], of ?p d] Cons.prems(6,7)
    have rd: "root_path ?d1 = root_path l" "dry_run ?d1" by (auto dest!: settings_eqD)
    from dry [OF Cons.prems(6), of ?p] have fd: "fs ?d1 = fs d" .
    from proper_joinpath(3) [OF pf, of "root_path l"]
    have bp: "with_suffix ?p (path_suffix ?p @ ''.bak'') = Inr (joinpath (root_path l) (bak_rel f))" .
    have agree1: "\<forall>a \<in> A - {f}. fs ?d1 (joinpath (root_path l1) a) = fs l1 (joinpath (root_path l1) a)"
    proof
      fix a assume a: "a \<in> A - {f}"
      with Cons.prems(4) have "a \<noteq> f" "a \<noteq> bak_rel f" by auto
      then have "joinpath (root_path l) a \<noteq> ?p"
                "joinpath (root_path l) a \<noteq> joinpath (root_path l) (bak_rel f)"
        by (simp_all add: joinpath_def)
      from other [OF m bp this(2,1)] a Cons.prems(10) fd rl
      show "fs ?d1 (joinpath (root_path l1) a) = fs l1 (joinpath (root_path l1) a)" by simp
    qed
    have "fst (process_files migrate files ?d1) = None \<and>
         changes_made (snd (process_files migrate files ?d1)) = changes_made l' \<and>
         warnings (snd (process_files migrate files ?d1)) = warnings l' \<and>
         root_path (snd (process_files migrate files ?d1)) = root_path l' \<and>
         root_path l' = root_path l1 \<and>
         dry_run (snd (process_files migrate files ?d1)) \<and>
         (\<forall>a \<in> (A - {f}) - set files. fs (snd (process_files migrate files ?d1)) (joinpath (root_path l1) a)
                                = fs l' (joinpath (root_path l1) a))"
      using Cons.prems(3,4) nf rd rl s1 agree1
      by (intro Cons.IH [OF pfs dfs _ _ r]) auto
    moreover have "process_files migrate (f # files) d = process_files migrate files ?d1"
      using True ex s1(1) Cons.prems(7)
      by (cases "migrate ?p d") (simp add: Let_def)
    moreover have "(A - {f}) - set files = A - set (f # files)" by auto
    ultimately show ?thesis using rl by simp
  qed
qed

lemma print_warnings_sim:
  "root_path d = root_path l \<Longrightarrow> fst (print_warnings ws d) = fst (print_warnings ws l)"
proof (induction ws arbitrary: d l)
  case Nil
  then show ?case by simp
next
  case (Cons w ws)
  show ?case
  proof (cases "relative_to w (root_path l)")
    case (Inl e)
    with Cons.prems show ?thesis by simp
  next
    case (Inr rel)
    have "fst (print_warnings ws (print (WarningItem rel) d))
            = fst (print_warnings ws (print (WarningItem rel) l))"
      using Cons.prems by (intro Cons.IH) simp
    with Inr Cons.prems show ?thesis by simp
  qed
qed

lemma summary_sim:
  assumes "root_path d = root_path l" "warnings d = warnings l"
  shows "fst (summary d) = fst (summary l)"
proof -
  let ?d1 = "print (WarningsHeader (length (warnings l)))
               (print (FilesModified (length (changes_made d))) d)"
  let ?l1 = "print (WarningsHeader (length (warnings l)))
               (print (FilesModified (length (changes_made l))) l)"
  have "fst (print_warnings (warnings l) ?d1) = fst (print_warnings (warnings l) ?l1)"
    using assms(1) by (intro print_warnings_sim) simp
  with assms(2) show ?thesis
    unfolding summary_def Let_def
    by (cases "print_warnings (warnings l) ?d1"; cases "print_warnings (warnings l) ?l1")
       (simp split: option.splits)
qed

lemma run_migration_sim:
  assumes "list_all proper_file (pf @ tf)" "no_alias (pf @ tf)"
      and "run_migration_with pr tr pf tf l = (None, l')"
      and "dry_run d" "root_path d = root_path l" "changes_made d = changes_made l"
          "warnings d = warnings l" "fs d = fs l"
  shows "fst (run_migration_with pr tr pf tf d) = None \<and>
         changes_made (snd (run_migration_with pr tr pf tf d)) = changes_made l' \<and>
         warnings (snd (run_migration_with pr tr pf tf d)) = warnings l'"
proof -
  let ?l0 = "print (Header (root_path l) (dry_run l) (no_backup l)) l"
  let ?d0 = "print (Header (root_path d) (dry_run d) (no_backup d)) d"
  let ?P = "process_files (migrate_python_file_with pr) pf"
  let ?T = "process_files (migrate_toml_file_with tr) tf"
  obtain e1 l1 where p: "?P ?l0 = (e1, l1)" by (cases "?P ?l0")
  obtain e2 l2 where t: "?T l1 = (e2, l2)" by (cases "?T l1")
  from assms(3) p t have e: "e1 = None" "e2 = None" and s: "summary l2 = (None, l')"
    by (auto simp: run_migration_with_def split: option.splits)
  from assms(1) have ppf: "list_all proper_file pf" and ptf: "list_all proper_file tf" by simp_all
  from assms(2) have dpf: "distinct pf" and dtf: "distinct tf" and disj: "set pf \<inter> set tf = {}"
    and nb: "\<forall>f \<in> set pf \<union> set tf. bak_rel f \<notin> set pf \<union> set tf"
    by (auto simp: no_alias_def list_all_iff)
  have 1: "fst (?P ?d0) = None \<and>
         changes_made (snd (?P ?d0)) = changes_made l1 \<and>
         warnings (snd (?P ?d0)) = warnings l1 \<and>
         root_path (snd (?P ?d0)) = root_path l1 \<and>
         root_path l1 = root_path ?l0 \<and>
         dry_run (snd (?P ?d0)) \<and>
         (\<forall>a \<in> (set pf \<union> set tf) - set pf.
             fs (snd (?P ?d0)) (joinpath (root_path ?l0) a) = fs l1 (joinpath (root_path ?l0) a))"
  proof (rule process_files_sim [where migrate = "migrate_python_file_with pr",
           OF _ _ _ _ ppf dpf _ _ p [unfolded e]])
    show "\<And>p l l' d. migrate_python_file_with pr p l = (None, l') \<Longrightarrow> dry_run d \<Longrightarrow>
            root_path d = root_path l \<Longrightarrow> fs d p = fs l p \<Longrightarrow>
            changes_made d = changes_made l \<Longrightarrow> warnings d = warnings l \<Longrightarrow>
            fst (migrate_python_file_with pr p d) = None \<and>
            changes_made (snd (migrate_python_file_with pr p d)) = changes_made l' \<and>
            warnings (snd (migrate_python_file_with pr p d)) = warnings l'"
      by (rule migrate_python_sim)
    show "\<And>p s e s' bp q. migrate_python_file_with pr p s = (e, s') \<Longrightarrow>
            with_suffix p (path_suffix p @ ''.bak'') = Inr bp \<Longrightarrow> q \<noteq> bp \<Longrightarrow> q \<noteq> p \<Longrightarrow>
            fs s' q = fs s q"
      by (rule migrate_python_other)
    show "\<And>p s e s'. migrate_python_file_with pr p s = (e, s') \<Longrightarrow> settings s' = settings s"
      using migrate_python_file_with_frame by blast
    show "\<And>p s. dry_run s \<Longrightarrow> fs (snd (migrate_python_file_with pr p s)) = fs s"
      by (rule migrate_python_dry)
    show "set pf \<subseteq> set pf \<union> set tf" by simp
    show "\<forall>f\<in>set pf. bak_rel f \<notin> set pf \<union> set tf" using nb by blast
    show "dry_run ?d0" using assms(4) by simp
    show "root_path ?d0 = root_path ?l0" using assms(5) by simp
    show "changes_made ?d0 = changes_made ?l0" using assms(6) by simp
    show "warnings ?d0 = warnings ?l0" using assms(7) by simp
    show "\<forall>a\<in>set pf \<union> set tf. fs ?d0 (joinpath (root_path ?l0) a) = fs ?l0 (joinpath (root_path ?l0) a)"
      unfolding print_fields assms(8) by simp
  qed
  let ?d1 = "snd (?P ?d0)"
  have agree: "\<forall>a \<in> set tf. fs ?d1 (joinpath (root_path l1) a) = fs l1 (joinpath (root_path l1) a)"
  proof
    fix a assume "a \<in> set tf"
    with disj have "a \<in> (set pf \<union> set tf) - set pf" by blast
    with 1 have "fs ?d1 (joinpath (root_path ?l0) a) = fs l1 (joinpath (root_path ?l0) a)" by blast
    moreover from 1 have "root_path l1 = root_path ?l0" by blast
    ultimately show "fs ?d1 (joinpath (root_path l1) a) = fs l1 (joinpath (root_path l1) a)" by simp
  qed
  have 2: "fst (?T ?d1) = None \<and>
         changes_made (snd (?T ?d1)) = changes_made l2 \<and>
         warnings (snd (?T ?d1)) = warnings l2 \<and>
         root_path (snd (?T ?d1)) = root_path l2 \<and>
         root_path l2 = root_path l1 \<and>
         dry_run (snd (?T ?d1)) \<and>
         (\<forall>a \<in> set tf - set tf.
             fs (snd (?T ?d1)) (joinpath (root_path l1) a) = fs l2 (joinpath (root_path l1) a))"
  proof (rule process_files_sim [where migrate = "migrate_toml_file_with tr",
           OF _ _ _ _ ptf dtf _ _ t [unfolded e]])
    show "\<And>p l l' d. migrate_toml_file_with tr p l = (None, l') \<Longrightarrow> dry_run d \<Longrightarrow>
            root_path d = root_path l \<Longrightarrow> fs d p = fs l p \<Longrightarrow>
            changes_made d = changes_made l \<Longrightarrow> warnings d = warnings l \<Longrightarrow>
            fst (migrate_toml_file_with tr p d) = None \<and>
            changes_made (snd (migrate_toml_file_with tr p d)) = changes_made l' \<and>
            warnings (snd (migrate_toml_file_with tr p d)) = warnings l'"
      by (rule migrate_toml_sim)
    show "\<And>p s e s' bp q. migrate_toml_file_with tr p s = (e, s') \<Longrightarrow>
            with_suffix p (path_suffix p @ ''.bak'') = Inr bp \<Longrightarrow> q \<noteq> bp \<Longrightarrow> q \<noteq> p \<Longrightarrow>
            fs s' q = fs s q"
      by (rule migrate_toml_other)
    show "\<And>p s e s'. migrate_toml_file_with tr p s = (e, s') \<Longrightarrow> settings s' = settings s"
      using migrate_toml_file_with_frame by blast
    show "\<And>p s. dry_run s \<Longrightarrow> fs (snd (migrate_toml_file_with tr p s)) = fs s"
      by (rule migrate_toml_dry)
    show "set tf \<subseteq> set tf" by simp
    show "\<forall>f\<in>set tf. bak_rel f \<notin> set tf" using nb by blast
    show "dry_run ?d1" using 1 by blast
    show "root_path ?d1 = root_path l1" using 1 by blast
    show "changes_made ?d1 = changes_made l1" using 1 by blast
    show "warnings ?d1 = warnings l1" using 1 by blast
    show "\<forall>a\<in>set tf. fs ?d1 (joinpath (root_path l1) a) = fs l1 (joinpath (root_path l1) a)"
      by (rule agree)
  qed
  let ?d2 = "snd (?T ?d1)"
  from 2 have r2: "root_path ?d2 = root_path l2" "warnings ?d2 = warnings l2"
    "changes_made ?d2 = changes_made l2" by blast+
  from summary_sim [OF r2(1,2)] s have s3: "fst (summary ?d2) = None" by simp
  from summary_frame [OF prod.collapse [symmetric], of ?d2] summary_frame [OF s] r2
  have c3: "changes_made (snd (summary ?d2)) = changes_made l'"
           "warnings (snd (summary ?d2)) = warnings l'" by simp_all
  from 1 have f1: "fst (?P ?d0) = None" by blast
  from 2 have f2: "fst (?T ?d1) = None" by blast
  have "run_migration_with pr tr pf tf d = summary ?d2"
    using f1 f2 unfolding run_migration_with_def
    by (cases "?P ?d0"; cases "?T ?d1") simp
  with s3 c3 show ?thesis by simp
qed

lemma script_files_proper: "list_all proper_file (FILES_TO_MIGRATE_python @ FILES_TO_MIGRATE_toml)"
  by code_simp

section \<open>The claims\<close>

text \<open>
  Claim C1. \<^verbatim>\<open>backup_file\<close> copies the target to its backup path only if nothing exists
  there (and the copy is allowed and wanted). A backup that exists stays as it is through any
  number of calls of \<^verbatim>\<open>migrate_python_file\<close> or \<^verbatim>\<open>migrate_toml_file\<close> on the target, with
  any rules and flags, whether they raise or not; after one call the backup is what it was,
  or it was absent and is now the target's content from before the call. An existing
  \<^verbatim>\<open>.py.ardupilot_backup\<close> copy likewise survives \<^verbatim>\<open>fix_vehicle_file\<close> and
  \<^verbatim>\<open>fix_multirotor_file\<close>.
\<close>

theorem backup_never_overwritten:
  assumes "with_suffix filepath (path_suffix filepath @ ''.bak'') = Inr backup_path"
      and "fs st backup_path = Some b"
      and "with_suffix filepath ''.py.ardupilot_backup'' = Inr ardupilot_path"
      and "fs st2 ardupilot_path = Some b'"
  shows "fs (snd (backup_file filepath st)) = fs st \<and>
         fs (snd (backup_file filepath st0)) =
           (if no_backup st0 \<or> dry_run st0 \<or> path_exists st0 backup_path \<or>
               \<not> writable st0 backup_path then fs st0
            else case fs st0 filepath of
                   Some (File c) \<Rightarrow> (fs st0)(backup_path \<mapsto> File c)
                 | _ \<Rightarrow> fs st0) \<and>
         fs (repeated migrate_python_file_with calls filepath st) backup_path = Some b \<and>
         fs (repeated migrate_toml_file_with calls filepath st) backup_path = Some b \<and>
         (fs (snd (migrate_python_file_with rules filepath st0)) backup_path = fs st0 backup_path \<or>
          fs st0 backup_path = None \<and>
          fs (snd (migrate_python_file_with rules filepath st0)) backup_path = fs st0 filepath) \<and>
         (fs (snd (migrate_toml_file_with rules filepath st0)) backup_path = fs st0 backup_path \<or>
          fs st0 backup_path = None \<and>
          fs (snd (migrate_toml_file_with rules filepath st0)) backup_path = fs st0 filepath) \<and>
         fs (snd (fix_vehicle_file filepath st2)) ardupilot_path = Some b' \<and>
         fs (snd (fix_multirotor_file filepath st2)) ardupilot_path = Some b'"
proof -
  note bak = assms(1)
  have ne: "backup_path \<noteq> filepath" using with_suffix_neq [OF bak] by simp
  have ne': "ardupilot_path \<noteq> filepath"
    using with_suffix_neq [OF assms(3)] ardupilot_suffix_neq by simp
  have 1: "fs (snd (backup_file filepath st)) = fs st"
    using backup_file_fs [OF bak, of st] assms(2) by (simp add: path_exists_def)
  have 3: "fs (repeated migrate_python_file_with calls filepath st) backup_path = Some b"
    using repeated_existing [of migrate_python_file_with filepath backup_path st calls]
          migrate_python_existing [OF _ ne] assms(2) by simp
  have 4: "fs (repeated migrate_toml_file_with calls filepath st) backup_path = Some b"
    using repeated_existing [of migrate_toml_file_with filepath backup_path st calls]
          migrate_toml_existing [OF _ ne] assms(2) by simp
  have 7: "fs (snd (fix_vehicle_file filepath st2)) ardupilot_path = Some b'"
    using fix_vehicle_existing [OF _ ne', of st2] assms(4) by (metis option.distinct(1) prod.collapse)
  have 8: "fs (snd (fix_multirotor_file filepath st2)) ardupilot_path = Some b'"
    using fix_multirotor_existing [OF _ ne', of st2] assms(4)
    by (metis option.distinct(1) prod.collapse)
  from 1 backup_file_fs [OF bak, of st0] 3 4 migrate_python_backup [OF bak, of rules st0]
       migrate_toml_backup [OF bak, of rules st0] 7 8
  show ?thesis by blast
qed


theorem backup_never_overwritten_witness:
  "with_suffix [''r'', ''a.py''] (path_suffix [''r'', ''a.py''] @ ''.bak'') = Inr [''r'', ''a.py.bak''] \<and>
   with_suffix [''r'', ''a.py''] ''.py.ardupilot_backup'' = Inr [''r'', ''a.py.ardupilot_backup''] \<and>
   fs (MigrationTool [''r''] False False
        [[''r'', ''a.py''] \<mapsto> File ''from omni.isaac.core import World'',
         [''r'', ''a.py.bak''] \<mapsto> File ''old'',
         [''r'', ''a.py.ardupilot_backup''] \<mapsto> File ''older'']) [''r'', ''a.py.bak'']
     = Some (File ''old'') \<and>
   fs (MigrationTool [''r''] False False
        [[''r'', ''a.py''] \<mapsto> File ''from omni.isaac.core import World'',
         [''r'', ''a.py.bak''] \<mapsto> File ''old'',
         [''r'', ''a.py.ardupilot_backup''] \<mapsto> File ''older'']) [''r'', ''a.py.ardupilot_backup'']
     = Some (File ''older'') \<and>
   fs (repeated migrate_python_file_with
         [(PYTHON_REPLACEMENTS, False, False), ([(''World'', ''Mars'')], False, False)]
         [''r'', ''a.py'']
         (MigrationTool [''r''] False False
            [[''r'', ''a.py''] \<mapsto> File ''from omni.isaac.core import World'',
             [''r'', ''a.py.bak''] \<mapsto> File ''old'',
             [''r'', ''a.py.ardupilot_backup''] \<mapsto> File ''older''])) [''r'', ''a.py'']
     = Some (File ''from isaacsim.core.api import Mars'') \<and>
   fs (repeated migrate_python_file_with
         [(PYTHON_REPLACEMENTS, False, False), ([(''World'', ''Mars'')], False, False)]
         [''r'', ''a.py'']
         (MigrationTool [''r''] False False
            [[''r'', ''a.py''] \<mapsto> File ''from omni.isaac.core import World'',
             [''r'', ''a.py.bak''] \<mapsto> File ''old'',
             [''r'', ''a.py.ardupilot_backup''] \<mapsto> File ''older''])) [''r'', ''a.py.bak'']
     = Some (File ''old'')"
proof -
  let ?st = "MigrationTool [''r''] False False
        [[''r'', ''a.py''] \<mapsto> File ''from omni.isaac.core import World'',
         [''r'', ''a.py.bak''] \<mapsto> File ''old'',
         [''r'', ''a.py.ardupilot_backup''] \<mapsto> File ''older'']"
  have h1: "with_suffix [''r'', ''a.py''] (path_suffix [''r'', ''a.py''] @ ''.bak'')
              = Inr [''r'', ''a.py.bak'']" by code_simp
  have h2: "fs ?st [''r'', ''a.py.bak''] = Some (File ''old'')" by (simp add: MigrationTool_def)
  have h3: "with_suffix [''r'', ''a.py''] ''.py.ardupilot_backup''
              = Inr [''r'', ''a.py.ardupilot_backup'']" by code_simp
  have h4: "fs ?st [''r'', ''a.py.ardupilot_backup''] = Some (File ''older'')"
    by (simp add: MigrationTool_def)
  have w: "fs (repeated migrate_python_file_with
         [(PYTHON_REPLACEMENTS, False, False), ([(''World'', ''Mars'')], False, False)]
         [''r'', ''a.py''] ?st) [''r'', ''a.py'']
     = Some (File ''from isaacsim.core.api import Mars'')" by code_simp
  from backup_never_overwritten [OF h1 h2 h3 h4] h1 h2 h3 h4 w show ?thesis by blast
qed

text \<open>
  Claim C2, amended. Whenever the live call (or the live run of the script's file tables, with
  any rule lists) raises nothing, the dry one from the same state raises nothing and leaves
  the same \<^verbatim>\<open>changes_made\<close> and the same \<^verbatim>\<open>warnings\<close>. A dry call or run never changes the
  filesystem. Each statement has its own state, path and rules.
\<close>

theorem dry_run_reports_like_live:
  "(fst (migrate_python_file_with rules1 filepath1 (st1\<lparr>dry_run := False\<rparr>)) = None \<longrightarrow>
      fst (migrate_python_file_with rules1 filepath1 (st1\<lparr>dry_run := True\<rparr>)) = None \<and>
      changes_made (snd (migrate_python_file_with rules1 filepath1 (st1\<lparr>dry_run := True\<rparr>))) =
        changes_made (snd (migrate_python_file_with rules1 filepath1 (st1\<lparr>dry_run := False\<rparr>))) \<and>
      warnings (snd (migrate_python_file_with rules1 filepath1 (st1\<lparr>dry_run := True\<rparr>))) =
        warnings (snd (migrate_python_file_with rules1 filepath1 (st1\<lparr>dry_run := False\<rparr>)))) \<and>
   (fst (migrate_toml_file_with rules2 filepath2 (st2\<lparr>dry_run := False\<rparr>)) = None \<longrightarrow>
      fst (migrate_toml_file_with rules2 filepath2 (st2\<lparr>dry_run := True\<rparr>)) = None \<and>
      changes_made (snd (migrate_toml_file_with rules2 filepath2 (st2\<lparr>dry_run := True\<rparr>))) =
        changes_made (snd (migrate_toml_file_with rules2 filepath2 (st2\<lparr>dry_run := False\<rparr>))) \<and>
      warnings (snd (migrate_toml_file_with rules2 filepath2 (st2\<lparr>dry_run := True\<rparr>))) =
        warnings (snd (migrate_toml_file_with rules2 filepath2 (st2\<lparr>dry_run := False\<rparr>)))) \<and>
   (fst (run_migration_with py_rules toml_rules FILES_TO_MIGRATE_python FILES_TO_MIGRATE_toml
           (st3\<lparr>dry_run := False\<rparr>)) = None \<longrightarrow>
      fst (run_migration_with py_rules toml_rules FILES_TO_MIGRATE_python FILES_TO_MIGRATE_toml
             (st3\<lparr>dry_run := True\<rparr>)) = None \<and>
      changes_made (snd (run_migration_with py_rules toml_rules FILES_TO_MIGRATE_python
                           FILES_TO_MIGRATE_toml (st3\<lparr>dry_run := True\<rparr>))) =
        changes_made (snd (run_migration_with py_rules toml_rules FILES_TO_MIGRATE_python
                             FILES_TO_MIGRATE_toml (st3\<lparr>dry_run := False\<rparr>))) \<and>
      warnings (snd (run_migration_with py_rules toml_rules FILES_TO_MIGRATE_python
                       FILES_TO_MIGRATE_toml (st3\<lparr>dry_run := True\<rparr>))) =
        warnings (snd (run_migration_with py_rules toml_rules FILES_TO_MIGRATE_python
                         FILES_TO_MIGRATE_toml (st3\<lparr>dry_run := False\<rparr>)))) \<and>
   fs (snd (migrate_python_file_with rules4 filepath4 (st4\<lparr>dry_run := True\<rparr>))) = fs st4 \<and>
   fs (snd (migrate_toml_file_with rules4 filepath4 (st4\<lparr>dry_run := True\<rparr>))) = fs st4 \<and>
   fs (snd (run_migration_with rules4 rules5 py_files toml_files (st4\<lparr>dry_run := True\<rparr>))) = fs st4"
proof (intro conjI impI)
  assume a: "fst (migrate_python_file_with rules1 filepath1 (st1\<lparr>dry_run := False\<rparr>)) = None"
  let ?l = "st1\<lparr>dry_run := False\<rparr>" and ?d = "st1\<lparr>dry_run := True\<rparr>"
  from a have "migrate_python_file_with rules1 filepath1 ?l
                 = (None, snd (migrate_python_file_with rules1 filepath1 ?l))"
    by (metis prod.collapse)
  from migrate_python_sim [OF this, of ?d]
  show "fst (migrate_python_file_with rules1 filepath1 ?d) = None"
       "changes_made (snd (migrate_python_file_with rules1 filepath1 ?d)) =
          changes_made (snd (migrate_python_file_with rules1 filepath1 ?l))"
       "warnings (snd (migrate_python_file_with rules1 filepath1 ?d)) =
          warnings (snd (migrate_python_file_with rules1 filepath1 ?l))"
    by simp_all
next
  assume a: "fst (migrate_toml_file_with rules2 filepath2 (st2\<lparr>dry_run := False\<rparr>)) = None"
  let ?l = "st2\<lparr>dry_run := False\<rparr>" and ?d = "st2\<lparr>dry_run := True\<rparr>"
  from a have "migrate_toml_file_with rules2 filepath2 ?l
                 = (None, snd (migrate_toml_file_with rules2 filepath2 ?l))"
    by (metis prod.collapse)
  from migrate_toml_sim [OF this, of ?d]
  show "fst (migrate_toml_file_with rules2 filepath2 ?d) = None"
       "changes_made (snd (migrate_toml_file_with rules2 filepath2 ?d)) =
          changes_made (snd (migrate_toml_file_with rules2 filepath2 ?l))"
       "warnings (snd (migrate_toml_file_with rules2 filepath2 ?d)) =
          warnings (snd (migrate_toml_file_with rules2 filepath2 ?l))"
    by simp_all
next
  let ?R = "run_migration_with py_rules toml_rules FILES_TO_MIGRATE_python FILES_TO_MIGRATE_toml"
  assume a: "fst (?R (st3\<lparr>dry_run := False\<rparr>)) = None"
  let ?l = "st3\<lparr>dry_run := False\<rparr>" and ?d = "st3\<lparr>dry_run := True\<rparr>"
  from a have "?R ?l = (None, snd (?R ?l))" by (metis prod.collapse)
  from run_migration_sim [OF script_files_proper script_no_alias this, of ?d]
  show "fst (?R ?d) = None"
       "changes_made (snd (?R ?d)) = changes_made (snd (?R ?l))"
       "warnings (snd (?R ?d)) = warnings (snd (?R ?l))"
    by simp_all
next
  show "fs (snd (migrate_python_file_with rules4 filepath4 (st4\<lparr>dry_run := True\<rparr>))) = fs st4"
    using migrate_python_dry [of "st4\<lparr>dry_run := True\<rparr>" rules4 filepath4] by simp
  show "fs (snd (migrate_toml_file_with rules4 filepath4 (st4\<lparr>dry_run := True\<rparr>))) = fs st4"
    using migrate_toml_dry [of "st4\<lparr>dry_run := True\<rparr>" rules4 filepath4] by simp
  show "fs (snd (run_migration_with rules4 rules5 py_files toml_files (st4\<lparr>dry_run := True\<rparr>))) = fs st4"
    using run_migration_dry [of "st4\<lparr>dry_run := True\<rparr>" rules4 rules5 py_files toml_files] by simp
qed


theorem dry_run_reports_like_live_witness:
  "fst (migrate_python_file_with PYTHON_REPLACEMENTS [''r'', ''a.py'']
     ((MigrationTool [''r''] False False
         [[''r'', ''a.py''] \<mapsto> File ''from omni.isaac.core import World # ArduPilot''])
      \<lparr>dry_run := False\<rparr>)) = None \<and>
   changes_made (snd (migrate_python_file_with PYTHON_REPLACEMENTS [''r'', ''a.py'']
     ((MigrationTool [''r''] False False
         [[''r'', ''a.py''] \<mapsto> File ''from omni.isaac.core import World # ArduPilot''])
      \<lparr>dry_run := True\<rparr>))) = [[''r'', ''a.py'']] \<and>
   warnings (snd (migrate_python_file_with PYTHON_REPLACEMENTS [''r'', ''a.py'']
     ((MigrationTool [''r''] False False
         [[''r'', ''a.py''] \<mapsto> File ''from omni.isaac.core import World # ArduPilot''])
      \<lparr>dry_run := True\<rparr>))) = [[''r'', ''a.py'']] \<and>
   fst (migrate_toml_file_with TOML_REPLACEMENTS [''r'', ''x.toml'']
     ((MigrationTool [''r''] False False
         [[''r'', ''x.toml''] \<mapsto> File (dq @ ''omni.isaac.core'' @ dq @ ''={}'')])
      \<lparr>dry_run := False\<rparr>)) = None \<and>
   changes_made (snd (migrate_toml_file_with TOML_REPLACEMENTS [''r'', ''x.toml'']
     ((MigrationTool [''r''] False False
         [[''r'', ''x.toml''] \<mapsto> File (dq @ ''omni.isaac.core'' @ dq @ ''={}'')])
      \<lparr>dry_run := True\<rparr>))) = [[''r'', ''x.toml'']] \<and>
   fst (run_migration_with PYTHON_REPLACEMENTS TOML_REPLACEMENTS
          FILES_TO_MIGRATE_python FILES_TO_MIGRATE_toml
     ((MigrationTool [''r''] False False
         [[''r'', ''examples'', ''9_people.py''] \<mapsto> File ''from omni.isaac.sensor import Camera'',
          [''r'', ''examples'', ''10_graphs.py''] \<mapsto> File ''# ardupilot''])
      \<lparr>dry_run := False\<rparr>)) = None \<and>
   changes_made (snd (run_migration_with PYTHON_REPLACEMENTS TOML_REPLACEMENTS
          FILES_TO_MIGRATE_python FILES_TO_MIGRATE_toml
     ((MigrationTool [''r''] False False
         [[''r'', ''examples'', ''9_people.py''] \<mapsto> File ''from omni.isaac.sensor import Camera'',
          [''r'', ''examples'', ''10_graphs.py''] \<mapsto> File ''# ardupilot''])
      \<lparr>dry_run := True\<rparr>))) = [[''r'', ''examples'', ''9_people.py'']] \<and>
   warnings (snd (run_migration_with PYTHON_REPLACEMENTS TOML_REPLACEMENTS
          FILES_TO_MIGRATE_python FILES_TO_MIGRATE_toml
     ((MigrationTool [''r''] False False
         [[''r'', ''examples'', ''9_people.py''] \<mapsto> File ''from omni.isaac.sensor import Camera'',
          [''r'', ''examples'', ''10_graphs.py''] \<mapsto> File ''# ardupilot''])
      \<lparr>dry_run := True\<rparr>))) = [[''r'', ''examples'', ''10_graphs.py'']]"
proof -
  let ?A = "MigrationTool [''r''] False False
         [[''r'', ''a.py''] \<mapsto> File ''from omni.isaac.core import World # ArduPilot'']"
  let ?B = "MigrationTool [''r''] False False
         [[''r'', ''x.toml''] \<mapsto> File (dq @ ''omni.isaac.core'' @ dq @ ''={}'')]"
  let ?C = "MigrationTool [''r''] False False
         [[''r'', ''examples'', ''9_people.py''] \<mapsto> File ''from omni.isaac.sensor import Camera'',
          [''r'', ''examples'', ''10_graphs.py''] \<mapsto> File ''# ardupilot'']"
  let ?R = "run_migration_with PYTHON_REPLACEMENTS TOML_REPLACEMENTS
          FILES_TO_MIGRATE_python FILES_TO_MIGRATE_toml"
  have a1: "fst (migrate_python_file_with PYTHON_REPLACEMENTS [''r'', ''a.py'']
              (?A\<lparr>dry_run := False\<rparr>)) = None" by code_simp
  have a2: "changes_made (snd (migrate_python_file_with PYTHON_REPLACEMENTS [''r'', ''a.py'']
              (?A\<lparr>dry_run := False\<rparr>))) = [[''r'', ''a.py'']]" by code_simp
  have a3: "warnings (snd (migrate_python_file_with PYTHON_REPLACEMENTS [''r'', ''a.py'']
              (?A\<lparr>dry_run := False\<rparr>))) = [[''r'', ''a.py'']]" by code_simp
  have b1: "fst (migrate_toml_file_with TOML_REPLACEMENTS [''r'', ''x.toml'']
              (?B\<lparr>dry_run := False\<rparr>)) = None" by code_simp
  have b2: "changes_made (snd (migrate_toml_file_with TOML_REPLACEMENTS [''r'', ''x.toml'']
              (?B\<lparr>dry_run := False\<rparr>))) = [[''r'', ''x.toml'']]" by code_simp
  have c1: "fst (?R (?C\<lparr>dry_run := False\<rparr>)) = None" by code_simp
  have c2: "changes_made (snd (?R (?C\<lparr>dry_run := False\<rparr>)))
              = [[''r'', ''examples'', ''9_people.py'']]" by code_simp
  have c3: "warnings (snd (?R (?C\<lparr>dry_run := False\<rparr>)))
              = [[''r'', ''examples'', ''10_graphs.py'']]" by code_simp
  note t = dry_run_reports_like_live
    [where ?rules1.0 = PYTHON_REPLACEMENTS and ?filepath1.0 = "[''r'', ''a.py'']" and ?st1.0 = ?A
       and ?rules2.0 = TOML_REPLACEMENTS and ?filepath2.0 = "[''r'', ''x.toml'']" and ?st2.0 = ?B
       and py_rules = PYTHON_REPLACEMENTS and toml_rules = TOML_REPLACEMENTS and ?st3.0 = ?C]
  from t a1 a2 a3 have
    "changes_made (snd (migrate_python_file_with PYTHON_REPLACEMENTS [''r'', ''a.py'']
        (?A\<lparr>dry_run := True\<rparr>))) = [[''r'', ''a.py'']]"
    "warnings (snd (migrate_python_file_with PYTHON_REPLACEMENTS [''r'', ''a.py'']
        (?A\<lparr>dry_run := True\<rparr>))) = [[''r'', ''a.py'']]" by simp_all
  moreover from t b1 b2 have
    "changes_made (snd (migrate_toml_file_with TOML_REPLACEMENTS [''r'', ''x.toml'']
        (?B\<lparr>dry_run := True\<rparr>))) = [[''r'', ''x.toml'']]" by simp
  moreover from t c1 c2 c3 have
    "changes_made (snd (?R (?C\<lparr>dry_run := True\<rparr>))) = [[''r'', ''examples'', ''9_people.py'']]"
    "warnings (snd (?R (?C\<lparr>dry_run := True\<rparr>))) = [[''r'', ''examples'', ''10_graphs.py'']]"
    by simp_all
  ultimately show ?thesis using a1 b1 c1 by blast
qed

text \<open>
  The claim as stated fails where the live mode cannot write: on a target that may not be
  overwritten the dry call reports the file as changed, the live call raises from
  \<^verbatim>\<open>open(filepath, 'w')\<close> and reports nothing.
\<close>

theorem dry_run_differs_on_failed_write_counterexample:
  "fst (migrate_python_file [''r'', ''a.py'']
     ((MigrationTool [''r''] True False
         [[''r'', ''a.py''] \<mapsto> File ''from omni.isaac.core import World''])
      \<lparr>writable := (\<lambda>p. p \<noteq> [''r'', ''a.py''])\<rparr>)) = None \<and>
   changes_made (snd (migrate_python_file [''r'', ''a.py'']
     ((MigrationTool [''r''] True False
         [[''r'', ''a.py''] \<mapsto> File ''from omni.isaac.core import World''])
      \<lparr>writable := (\<lambda>p. p \<noteq> [''r'', ''a.py''])\<rparr>))) = [[''r'', ''a.py'']] \<and>
   fst (migrate_python_file [''r'', ''a.py'']
     ((MigrationTool [''r''] False False
         [[''r'', ''a.py''] \<mapsto> File ''from omni.isaac.core import World''])
      \<lparr>writable := (\<lambda>p. p \<noteq> [''r'', ''a.py''])\<rparr>)) = Some WriteFailure \<and>
   changes_made (snd (migrate_python_file [''r'', ''a.py'']
     ((MigrationTool [''r''] False False
         [[''r'', ''a.py''] \<mapsto> File ''from omni.isaac.core import World''])
      \<lparr>writable := (\<lambda>p. p \<noteq> [''r'', ''a.py''])\<rparr>))) = []"
  by code_simp

text \<open>
  Claim C4, amended. If the rules leave the content as it was, \<^verbatim>\<open>migrate_python_file\<close> and
  \<^verbatim>\<open>migrate_toml_file\<close> leave the filesystem as it was. \<^verbatim>\<open>fix_vehicle_file\<close> and
  \<^verbatim>\<open>fix_multirotor_file\<close> do not write the target either, but they have made their backup
  before rewriting: the filesystem gains the \<^verbatim>\<open>.py.ardupilot_backup\<close> copy if there was none
  and it can be created. Each of the four statements has its own state, content and rules.
\<close>

theorem unchanged_file_untouched:
  "(read_text st1 filepath = Inr content1 \<and>
    apply_replacements python_left rules1 content1 [] = Inr (content1, changes1)
    \<longrightarrow> fs (snd (migrate_python_file_with rules1 filepath st1)) = fs st1) \<and>
   (read_text st2 filepath = Inr content2 \<and>
    apply_replacements toml_left rules2 content2 [] = Inr (content2, changes2)
    \<longrightarrow> fs (snd (migrate_toml_file_with rules2 filepath st2)) = fs st2) \<and>
   (read_text st3 filepath = Inr content3 \<and>
    with_suffix filepath ''.py.ardupilot_backup'' = Inr backup_path \<and>
    re_sub False dynamic_control_pattern dynamic_control_replacement content3 = Inr mid \<and>
    re_sub True func_pattern new_function mid = Inr content3
    \<longrightarrow> fs (snd (fix_vehicle_file filepath st3)) =
          (if path_exists st3 backup_path \<or> \<not> writable st3 backup_path then fs st3
           else (fs st3)(backup_path \<mapsto> File content3))) \<and>
   (read_text st4 filepath = Inr content4 \<and>
    with_suffix filepath ''.py.ardupilot_backup'' = Inr backup_path \<and>
    re_sub False dynamic_control_pattern dynamic_control_replacement content4 = Inr content4
    \<longrightarrow> fs (snd (fix_multirotor_file filepath st4)) =
          (if path_exists st4 backup_path \<or> \<not> writable st4 backup_path then fs st4
           else (fs st4)(backup_path \<mapsto> File content4)))"
proof (intro conjI impI; elim conjE)
  assume "read_text st1 filepath = Inr content1"
         "apply_replacements python_left rules1 content1 [] = Inr (content1, changes1)"
  then show "fs (snd (migrate_python_file_with rules1 filepath st1)) = fs st1"
    by (auto simp: migrate_python_file_with_def Let_def write_if_changed_same split: sum.splits)
next
  assume "read_text st2 filepath = Inr content2"
         "apply_replacements toml_left rules2 content2 [] = Inr (content2, changes2)"
  then show "fs (snd (migrate_toml_file_with rules2 filepath st2)) = fs st2"
    by (auto simp: migrate_toml_file_with_def Let_def write_if_changed_same split: sum.splits)
next
  assume r: "read_text st3 filepath = Inr content3"
     and w: "with_suffix filepath ''.py.ardupilot_backup'' = Inr backup_path"
     and s: "re_sub False dynamic_control_pattern dynamic_control_replacement content3 = Inr mid"
            "re_sub True func_pattern new_function mid = Inr content3"
  from r have f: "fs st3 filepath = Some (File content3)"
    by (auto simp: read_text_def split: option.splits node.splits)
  from ardupilot_backup_fs [OF w, of "print (FixProcessing filepath) st3" content3] f r s
  show "fs (snd (fix_vehicle_file filepath st3)) =
          (if path_exists st3 backup_path \<or> \<not> writable st3 backup_path then fs st3
           else (fs st3)(backup_path \<mapsto> File content3))"
    by (simp add: fix_vehicle_file_def Let_def)
next
  assume r: "read_text st4 filepath = Inr content4"
     and w: "with_suffix filepath ''.py.ardupilot_backup'' = Inr backup_path"
     and s: "re_sub False dynamic_control_pattern dynamic_control_replacement content4 = Inr content4"
  from r have f: "fs st4 filepath = Some (File content4)"
    by (auto simp: read_text_def split: option.splits node.splits)
  from ardupilot_backup_fs [OF w, of "print (FixProcessing filepath) st4" content4] f r s
  show "fs (snd (fix_multirotor_file filepath st4)) =
          (if path_exists st4 backup_path \<or> \<not> writable st4 backup_path then fs st4
           else (fs st4)(backup_path \<mapsto> File content4))"
    by (simp add: fix_multirotor_file_def Let_def)
qed

theorem unchanged_file_untouched_witness:
  "read_text (MigrationTool [''r''] False False
      [[''r'', ''vehicle.py''] \<mapsto>
         File ''def get_world_transform_xform(prim: Usd.Prim): return rotation''])
     [''r'', ''vehicle.py'']
     = Inr ''def get_world_transform_xform(prim: Usd.Prim): return rotation'' \<and>
   apply_replacements python_left PYTHON_REPLACEMENTS
     ''def get_world_transform_xform(prim: Usd.Prim): return rotation'' []
     = Inr (''def get_world_transform_xform(prim: Usd.Prim): return rotation'', []) \<and>
   apply_replacements toml_left TOML_REPLACEMENTS
     ''def get_world_transform_xform(prim: Usd.Prim): return rotation'' []
     = Inr (''def get_world_transform_xform(prim: Usd.Prim): return rotation'', []) \<and>
   fs (snd (migrate_python_file_with PYTHON_REPLACEMENTS [''r'', ''vehicle.py'']
         (MigrationTool [''r''] False False
            [[''r'', ''vehicle.py''] \<mapsto>
               File ''def get_world_transform_xform(prim: Usd.Prim): return rotation''])))
     = [[''r'', ''vehicle.py''] \<mapsto>
          File ''def get_world_transform_xform(prim: Usd.Prim): return rotation''] \<and>
   fs (snd (migrate_toml_file_with TOML_REPLACEMENTS [''r'', ''vehicle.py'']
         (MigrationTool [''r''] False False
            [[''r'', ''vehicle.py''] \<mapsto>
               File ''def get_world_transform_xform(prim: Usd.Prim): return rotation''])))
     = [[''r'', ''vehicle.py''] \<mapsto>
          File ''def get_world_transform_xform(prim: Usd.Prim): return rotation''] \<and>
   read_text (MigrationTool [''r''] False False [[''r'', ''a.py''] \<mapsto> File ''import os''])
     [''r'', ''a.py''] = Inr ''import os'' \<and>
   with_suffix [''r'', ''a.py''] ''.py.ardupilot_backup'' = Inr [''r'', ''a.py.ardupilot_backup''] \<and>
   re_sub False dynamic_control_pattern dynamic_control_replacement ''import os'' = Inr ''import os'' \<and>
   re_sub True func_pattern new_function ''import os'' = Inr ''import os'' \<and>
   fs (snd (fix_vehicle_file [''r'', ''a.py'']
         (MigrationTool [''r''] False False [[''r'', ''a.py''] \<mapsto> File ''import os''])))
     = [[''r'', ''a.py''] \<mapsto> File ''import os'',
        [''r'', ''a.py.ardupilot_backup''] \<mapsto> File ''import os''] \<and>
   fs (snd (fix_multirotor_file [''r'', ''a.py'']
         (MigrationTool [''r''] False False [[''r'', ''a.py''] \<mapsto> File ''import os''])))
     = [[''r'', ''a.py''] \<mapsto> File ''import os'',
        [''r'', ''a.py.ardupilot_backup''] \<mapsto> File ''import os'']"
proof -
  let ?X = "''def get_world_transform_xform(prim: Usd.Prim): return rotation''"
  let ?A = "MigrationTool [''r''] False False [[''r'', ''vehicle.py''] \<mapsto> File ?X]"
  let ?B = "MigrationTool [''r''] False False [[''r'', ''a.py''] \<mapsto> File ''import os'']"
  have a1: "read_text ?A [''r'', ''vehicle.py''] = Inr ?X"
    by (simp add: read_text_def MigrationTool_def)
  have a2: "apply_replacements python_left PYTHON_REPLACEMENTS ?X [] = Inr (?X, [])" by code_simp
  have a3: "apply_replacements toml_left TOML_REPLACEMENTS ?X [] = Inr (?X, [])" by code_simp
  have b1: "read_text ?B [''r'', ''a.py''] = Inr ''import os''"
    by (simp add: read_text_def MigrationTool_def)
  have b2: "with_suffix [''r'', ''a.py''] ''.py.ardupilot_backup''
              = Inr [''r'', ''a.py.ardupilot_backup'']" by code_simp
  have b3: "re_sub False dynamic_control_pattern dynamic_control_replacement ''import os''
              = Inr ''import os''" by code_simp
  have b4: "re_sub True func_pattern new_function ''import os'' = Inr ''import os''" by code_simp
  have ne: "\<not> path_exists ?B [''r'', ''a.py.ardupilot_backup'']"
           "writable ?B [''r'', ''a.py.ardupilot_backup'']"
    by (simp_all add: path_exists_def MigrationTool_def)
  note t = unchanged_file_untouched
    [where filepath = "[''r'', ''vehicle.py'']" and ?st1.0 = ?A and ?content1.0 = ?X
       and ?rules1.0 = PYTHON_REPLACEMENTS and ?changes1.0 = "[]" and ?st2.0 = ?A and ?content2.0 = ?X
       and ?rules2.0 = TOML_REPLACEMENTS and ?changes2.0 = "[]"]
  note u = unchanged_file_untouched
    [where filepath = "[''r'', ''a.py'']" and ?st3.0 = ?B and ?content3.0 = "''import os''"
       and backup_path = "[''r'', ''a.py.ardupilot_backup'']" and mid = "''import os''"
       and ?st4.0 = ?B and ?content4.0 = "''import os''"]
  from t a1 a2 have c1: "fs (snd (migrate_python_file_with PYTHON_REPLACEMENTS
      [''r'', ''vehicle.py''] ?A)) = fs ?A" by blast
  from t a1 a3 have c2: "fs (snd (migrate_toml_file_with TOML_REPLACEMENTS
      [''r'', ''vehicle.py''] ?A)) = fs ?A" by blast
  have fA: "fs ?A = [[''r'', ''vehicle.py''] \<mapsto> File ?X]" by (simp add: MigrationTool_def)
  have fB: "fs ?B = [[''r'', ''a.py''] \<mapsto> File ''import os'']" by (simp add: MigrationTool_def)
  from u b1 b2 b3 b4 have "fs (snd (fix_vehicle_file [''r'', ''a.py''] ?B)) =
      (if path_exists ?B [''r'', ''a.py.ardupilot_backup''] \<or>
          \<not> writable ?B [''r'', ''a.py.ardupilot_backup''] then fs ?B
       else (fs ?B)([''r'', ''a.py.ardupilot_backup''] \<mapsto> File ''import os''))" by blast
  with ne fB have c3: "fs (snd (fix_vehicle_file [''r'', ''a.py''] ?B)) =
      [[''r'', ''a.py''] \<mapsto> File ''import os'',
       [''r'', ''a.py.ardupilot_backup''] \<mapsto> File ''import os'']" by simp
  from u b1 b2 b3 have "fs (snd (fix_multirotor_file [''r'', ''a.py''] ?B)) =
      (if path_exists ?B [''r'', ''a.py.ardupilot_backup''] \<or>
          \<not> writable ?B [''r'', ''a.py.ardupilot_backup''] then fs ?B
       else (fs ?B)([''r'', ''a.py.ardupilot_backup''] \<mapsto> File ''import os''))" by blast
  with ne fB have c4: "fs (snd (fix_multirotor_file [''r'', ''a.py''] ?B)) =
      [[''r'', ''a.py''] \<mapsto> File ''import os'',
       [''r'', ''a.py.ardupilot_backup''] \<mapsto> File ''import os'']" by simp
  from c1 c2 fA have c1': "fs (snd (migrate_python_file_with PYTHON_REPLACEMENTS
      [''r'', ''vehicle.py''] ?A)) = [[''r'', ''vehicle.py''] \<mapsto> File ?X]"
    and c2': "fs (snd (migrate_toml_file_with TOML_REPLACEMENTS
      [''r'', ''vehicle.py''] ?A)) = [[''r'', ''vehicle.py''] \<mapsto> File ?X]" by simp_all
  from a1 a2 a3 c1' c2' b1 b2 b3 b4 c3 c4 show ?thesis by blast
qed

text \<open>
  The claim as stated fails for \<^verbatim>\<open>fix_multirotor_file\<close>: the content has nothing to rewrite,
  and a backup file appears.
\<close>

theorem unchanged_file_backup_counterexample:
  "re_sub False dynamic_control_pattern dynamic_control_replacement ''import os'' = Inr ''import os'' \<and>
   fs (MigrationTool [] False False [[''multirotor.py''] \<mapsto> File ''import os''])
      [''multirotor.py.ardupilot_backup''] = None \<and>
   fs (snd (fix_multirotor_file [''multirotor.py'']
         (MigrationTool [] False False [[''multirotor.py''] \<mapsto> File ''import os''])))
      [''multirotor.py.ardupilot_backup''] = Some (File ''import os'')"
  by code_simp

text \<open>
  Claim C5, amended. \<^verbatim>\<open>migrate_python_file\<close> appends the file to \<^verbatim>\<open>warnings\<close> exactly when
  some substring of the content after the replacements is \<^verbatim>\<open>ardupilot\<close> once lowercased: the
  search does not distinguish case, and the second test, for \<^verbatim>\<open>ArduPilot\<close>, adds nothing.
  Only the file is recorded, not the terms found.
\<close>

theorem attention_scan_ignores_case:
  assumes "relative_to filepath (root_path st) = Inr rel"
      and "read_text st filepath = Inr original_content"
      and "apply_replacements python_left rules original_content [] = Inr (content, changes)"
  shows "warnings (snd (migrate_python_file_with rules filepath st)) =
           (if \<exists>u w v. content = u @ w @ v \<and> lower w = ''ardupilot''
            then warnings st @ [filepath] else warnings st)"
proof -
  have w: "warnings (snd (write_if_changed p c0 c ch s)) = warnings s" for p c0 c ch s
    using write_if_changed_frame [OF prod.collapse [symmetric], of p c0 c ch s] by simp
  show ?thesis
    using assms unfolding has_ardupilot_iff [symmetric]
    by (simp add: migrate_python_file_with_def Let_def w)
qed

theorem attention_scan_ignores_case_witness:
  "relative_to [''r'', ''a.py''] [''r''] = Inr [''a.py''] \<and>
   read_text (MigrationTool [''r''] False False [[''r'', ''a.py''] \<mapsto> File ''# ARDUPILOT''])
     [''r'', ''a.py''] = Inr ''# ARDUPILOT'' \<and>
   apply_replacements python_left PYTHON_REPLACEMENTS ''# ARDUPILOT'' [] = Inr (''# ARDUPILOT'', []) \<and>
   ''# ARDUPILOT'' = ''# '' @ ''ARDUPILOT'' @ [] \<and> lower ''ARDUPILOT'' = ''ardupilot'' \<and>
   warnings (snd (migrate_python_file_with PYTHON_REPLACEMENTS [''r'', ''a.py'']
      (MigrationTool [''r''] False False [[''r'', ''a.py''] \<mapsto> File ''# ARDUPILOT'']))) =
     [[''r'', ''a.py'']]"
proof -
  let ?st = "MigrationTool [''r''] False False [[''r'', ''a.py''] \<mapsto> File ''# ARDUPILOT'']"
  have h1: "relative_to [''r'', ''a.py''] (root_path ?st) = Inr [''a.py'']"
    by (simp add: relative_to_def MigrationTool_def)
  have h2: "read_text ?st [''r'', ''a.py''] = Inr ''# ARDUPILOT''"
    by (simp add: read_text_def MigrationTool_def)
  have h3: "apply_replacements python_left PYTHON_REPLACEMENTS ''# ARDUPILOT'' []
              = Inr (''# ARDUPILOT'', [])" by code_simp
  have l: "lower ''ARDUPILOT'' = ''ardupilot''" by code_simp
  have e: "''# ARDUPILOT'' = ''# '' @ ''ARDUPILOT'' @ []" by simp
  from e l have ex: "\<exists>u w v. ''# ARDUPILOT'' = u @ w @ v \<and> lower w = ''ardupilot''" by blast
  from attention_scan_ignores_case [OF h1 h2 h3] ex h1 h2 h3 l
  show ?thesis by (simp add: MigrationTool_def)
qed

text \<open>
  The claim as stated fails: neither term occurs in this content with matching case, and the
  file is flagged.
\<close>

theorem attention_scan_case_counterexample:
  "\<not> py_in ''ardupilot'' ''# ARDUPILOT'' \<and> \<not> py_in ''ArduPilot'' ''# ARDUPILOT'' \<and>
   warnings (snd (migrate_python_file [''r'', ''a.py'']
      (MigrationTool [''r''] False False [[''r'', ''a.py''] \<mapsto> File ''# ARDUPILOT'']))) =
     [[''r'', ''a.py'']]"
  by code_simp

text \<open>
  Claim C6, amended. The rule tables are lists of strings and nothing compiles them before
  the loops start. A pattern that does not compile raises when \<^verbatim>\<open>re.findall\<close> first uses
  it, inside \<^verbatim>\<open>migrate_python_file\<close> or \<^verbatim>\<open>migrate_toml_file\<close>: the call raises after the
  rules before it were applied in memory, and the file in hand is not written, not backed up
  and not reported.
\<close>

theorem malformed_pattern_raises_at_first_use:
  assumes "re_compile False old_pattern = Inl e"
      and "apply_replacements python_left earlier content [] = Inr (content1, changes1)"
      and "read_text st filepath = Inr content"
      and "relative_to filepath (root_path st) = Inr rel"
  shows "migrate_python_file_with (earlier @ (old_pattern, new_pattern) # later) filepath st
           = (Some e, print (Processing rel) st) \<and>
         migrate_toml_file_with (earlier @ (old_pattern, new_pattern) # later) filepath st
           = (Some e, print (Processing rel) st) \<and>
         fs (print (Processing rel) st) = fs st \<and>
         changes_made (print (Processing rel) st) = changes_made st \<and>
         warnings (print (Processing rel) st) = warnings st"
  using assms(3,4)
        apply_replacements_malformed [OF assms(1,2), of python_left new_pattern later]
        apply_replacements_malformed [OF assms(1,2), of toml_left new_pattern later]
  by (simp add: migrate_python_file_with_def migrate_toml_file_with_def Let_def)

theorem malformed_pattern_raises_at_first_use_witness:
  "re_compile False ''*'' = Inl ReError \<and>
   apply_replacements python_left PYTHON_REPLACEMENTS ''from omni.isaac.core import World'' []
     = Inr (''from isaacsim.core.api import World'',
            [(''from omni.isaac.core import World'', ''from isaacsim.core.api import World'')]) \<and>
   read_text (MigrationTool [''r''] False False
                [[''r'', ''a.py''] \<mapsto> File ''from omni.isaac.core import World''])
     [''r'', ''a.py''] = Inr ''from omni.isaac.core import World'' \<and>
   relative_to [''r'', ''a.py''] [''r''] = Inr [''a.py''] \<and>
   migrate_python_file_with (PYTHON_REPLACEMENTS @ [(''*'', ''x'')]) [''r'', ''a.py'']
     (MigrationTool [''r''] False False
        [[''r'', ''a.py''] \<mapsto> File ''from omni.isaac.core import World''])
   = (Some ReError, print (Processing [''a.py''])
        (MigrationTool [''r''] False False
           [[''r'', ''a.py''] \<mapsto> File ''from omni.isaac.core import World'']))"
proof -
  let ?st = "MigrationTool [''r''] False False
                [[''r'', ''a.py''] \<mapsto> File ''from omni.isaac.core import World'']"
  have h1: "re_compile False ''*'' = Inl ReError" by code_simp
  have h2: "apply_replacements python_left PYTHON_REPLACEMENTS ''from omni.isaac.core import World'' []
     = Inr (''from isaacsim.core.api import World'',
            [(''from omni.isaac.core import World'', ''from isaacsim.core.api import World'')])"
    by code_simp
  have h3: "read_text ?st [''r'', ''a.py''] = Inr ''from omni.isaac.core import World''"
    by (simp add: read_text_def MigrationTool_def)
  have h4: "relative_to [''r'', ''a.py''] (root_path ?st) = Inr [''a.py'']"
    by (simp add: relative_to_def MigrationTool_def)
  from malformed_pattern_raises_at_first_use [OF h1 h2 h3 h4, of "''x''" "[]"] h1 h2 h3 h4
  show ?thesis by (simp add: MigrationTool_def)
qed

text \<open>
  The claim as stated fails: with a TOML pattern that does not compile, the run raises only
  when it reaches the TOML file, after a Python file has been rewritten on disk.
\<close>

theorem malformed_pattern_late_counterexample:
  "re_compile False ''*'' = Inl ReError \<and>
   fst (run_migration_with PYTHON_REPLACEMENTS [(''*'', ''x'')] [[''a.py'']] [[''b.toml'']]
     (MigrationTool [''r''] False False
        [[''r'', ''a.py''] \<mapsto> File ''from omni.isaac.core import World'',
         [''r'', ''b.toml''] \<mapsto> File ''x''])) = Some ReError \<and>
   fs (snd (run_migration_with PYTHON_REPLACEMENTS [(''*'', ''x'')] [[''a.py'']] [[''b.toml'']]
     (MigrationTool [''r''] False False
        [[''r'', ''a.py''] \<mapsto> File ''from omni.isaac.core import World'',
         [''r'', ''b.toml''] \<mapsto> File ''x'']))) [''r'', ''a.py'']
     = Some (File ''from isaacsim.core.api import World'')"
  by code_simp



text \<open>
  Claim C8. \<^verbatim>\<open>migrate_python_file\<close> keeps the first matched substring of each rule that
  matched (lemma \<open>all_matches_replaced\<close>); the same loop in \<^verbatim>\<open>migrate_toml_file\<close> formats
  \<^verbatim>\<open>old_pattern\<close> where its sibling formats \<^verbatim>\<open>matches[0]\<close>. On a TOML file holding the old
  dependency line, \<^verbatim>\<open>re.findall\<close> returns that line as the only match, and the entry printed
  holds the pattern's source text, which is not the matched text.
\<close>

theorem toml_entry_holds_pattern:
  "re_findall (dq @ ''omni'' @ bs @ ''.isaac'' @ bs @ ''.core'' @ dq @ bs @ ''s*='' @ bs @ ''s*'' @ bs @ ''{'' @ bs @ ''}'')
     (dq @ ''omni.isaac.core'' @ dq @ '' = {}'') = Inr [dq @ ''omni.isaac.core'' @ dq @ '' = {}''] \<and>
   out (snd (migrate_toml_file [''r'', ''extension.toml'']
     (MigrationTool [''r''] False False
        [[''r'', ''extension.toml''] \<mapsto> File (dq @ ''omni.isaac.core'' @ dq @ '' = {}'')]))) =
     [Processing [''extension.toml''], BackedUp ''extension.toml.bak'', Updated 1,
      Change (dq @ ''omni'' @ bs @ ''.isaac'' @ bs @ ''.core'' @ dq @ bs @ ''s*='' @ bs @ ''s*'' @ bs @ ''{'' @ bs @ ''}'')
             (dq @ ''isaacsim.core.api'' @ dq @ '' = {}'')] \<and>
   dq @ ''omni'' @ bs @ ''.isaac'' @ bs @ ''.core'' @ dq @ bs @ ''s*='' @ bs @ ''s*'' @ bs @ ''{'' @ bs @ ''}''
     \<noteq> dq @ ''omni.isaac.core'' @ dq @ '' = {}''"
  by code_simp

text \<open>
  Claim C9. If reading the target fails (the file is missing or unreadable), both
  \<^verbatim>\<open>migrate_python_file\<close> and \<^verbatim>\<open>migrate_toml_file\<close> return without raising, whatever the
  rules are, and have only printed two lines: \<^verbatim>\<open>changes_made\<close>, \<^verbatim>\<open>warnings\<close> and the
  filesystem are as before.
\<close>

theorem read_failure_leaves_no_trace:
  assumes "read_text st filepath = Inl e"
      and "relative_to filepath (root_path st) = Inr rel"
  shows "migrate_python_file_with rules filepath st
           = (None, print ErrorReading (print (Processing rel) st)) \<and>
         migrate_toml_file_with rules filepath st
           = (None, print ErrorReading (print (Processing rel) st)) \<and>
         changes_made (print ErrorReading (print (Processing rel) st)) = changes_made st \<and>
         warnings (print ErrorReading (print (Processing rel) st)) = warnings st \<and>
         fs (print ErrorReading (print (Processing rel) st)) = fs st"
  using assms by (simp add: migrate_python_file_with_def migrate_toml_file_with_def Let_def)

theorem read_failure_leaves_no_trace_witness:
  "read_text (MigrationTool [''r''] False False [[''r'', ''a.py''] \<mapsto> Unreadable]) [''r'', ''a.py'']
     = Inl ReadFailure \<and>
   relative_to [''r'', ''a.py''] [''r''] = Inr [''a.py''] \<and>
   migrate_python_file_with PYTHON_REPLACEMENTS [''r'', ''a.py'']
      (MigrationTool [''r''] False False [[''r'', ''a.py''] \<mapsto> Unreadable])
     = (None, print ErrorReading (print (Processing [''a.py''])
          (MigrationTool [''r''] False False [[''r'', ''a.py''] \<mapsto> Unreadable])))"
proof -
  let ?st = "MigrationTool [''r''] False False [[''r'', ''a.py''] \<mapsto> Unreadable]"
  have r: "read_text ?st [''r'', ''a.py''] = Inl ReadFailure"
    by (simp add: read_text_def MigrationTool_def)
  have l: "relative_to [''r'', ''a.py''] (root_path ?st) = Inr [''a.py'']"
    by (simp add: relative_to_def MigrationTool_def)
  from read_failure_leaves_no_trace [OF r l, of PYTHON_REPLACEMENTS] r l
  show ?thesis by (simp add: MigrationTool_def)
qed

text \<open>
  Claim C10. \<^verbatim>\<open>migrate_toml_file\<close> never appends to \<^verbatim>\<open>warnings\<close>, whatever the file
  holds; neither does the TOML loop, so after a whole run \<^verbatim>\<open>warnings\<close> is what the loop
  over the Python files left.
\<close>

theorem toml_never_flagged:
  "warnings (snd (migrate_toml_file_with rules filepath st)) = warnings st \<and>
   warnings (snd (process_files (migrate_toml_file_with rules) files st)) = warnings st \<and>
   warnings (snd (run_migration_with py_rules toml_rules py_files toml_files st)) =
     warnings (snd (process_files (migrate_python_file_with py_rules) py_files
                      (print (Header (root_path st) (dry_run st) (no_backup st)) st)))"
proof (intro conjI)
  show "warnings (snd (migrate_toml_file_with rules filepath st)) = warnings st"
    using migrate_toml_file_with_frame [of rules filepath st] by (metis prod.collapse)
  show "warnings (snd (process_files (migrate_toml_file_with rules) files st)) = warnings st"
    using process_files_toml_frame [of rules files st] by (metis prod.collapse)
  let ?st0 = "print (Header (root_path st) (dry_run st) (no_backup st)) st"
  obtain e1 st1 where p: "process_files (migrate_python_file_with py_rules) py_files ?st0 = (e1, st1)"
    by (cases "process_files (migrate_python_file_with py_rules) py_files ?st0")
  obtain e2 st2 where t: "process_files (migrate_toml_file_with toml_rules) toml_files st1 = (e2, st2)"
    by (cases "process_files (migrate_toml_file_with toml_rules) toml_files st1")
  obtain e3 st3 where s: "summary st2 = (e3, st3)" by (cases "summary st2")
  from process_files_toml_frame [OF t] summary_frame [OF s]
  have "warnings st2 = warnings st1" "warnings st3 = warnings st1" by simp_all
  with p t s
  show "warnings (snd (run_migration_with py_rules toml_rules py_files toml_files st)) =
        warnings (snd (process_files (migrate_python_file_with py_rules) py_files ?st0))"
    by (cases e1; cases e2) (simp_all add: run_migration_with_def)
qed

end
